theory Spec2Isabelle
  imports Main "HOL-Library.Word"
begin

section \<open>gojiutil: middlewares for goji\<close>

text \<open>
  A shallow embedding of the package \<^verbatim>\<open>gojiutil\<close>: the middlewares of
  \<^verbatim>\<open>middleware.go\<close> and the error helpers of \<^verbatim>\<open>util.go\<close>.

  The sources hold three revisions of \<^verbatim>\<open>middleware.go\<close>. The newest one (the
  one with \<^verbatim>\<open>reqPrefix\<close>, \<^verbatim>\<open>init\<close> and \<^verbatim>\<open>GetJSONBody\<close>) is modelled under the
  source's names. Where the revision stored as \<^verbatim>\<open>src/middleware.go\<close> differs
  (\<^verbatim>\<open>Logger15\<close>, \<^verbatim>\<open>Recoverer\<close>, \<^verbatim>\<open>RequestID\<close>), it is modelled too, under the
  source's name with the suffix \<^verbatim>\<open>_rev0\<close>. The revision in between has the
  \<^verbatim>\<open>RequestID\<close> of \<^verbatim>\<open>src/middleware.go\<close>, and the \<^verbatim>\<open>EnvAdd\<close>, \<^verbatim>\<open>Recoverer\<close> and
  \<^verbatim>\<open>FormParser\<close> of the newest one; its \<^verbatim>\<open>Logger15\<close> is the newest one's but for
  the key (\<^verbatim>\<open>id\<close>) and the place of the request id among the context entries.

  A goji handler runs against a context \<^verbatim>\<open>c\<close> (whose \<^verbatim>\<open>Env\<close> is a Go map and may
  be nil), a response writer and the package's variables. All of them are fields of
  one state that is passed along; a handler returns normally or panics.
\<close>

subsection \<open>Values, requests, response writers, log records\<close>

text \<open>The values of type \<^verbatim>\<open>interface{}\<close> that the package stores or reads.\<close>

datatype val =
    VNil
  | VString string
  | VStrings "string list"
  | VInt int
  | VObject "(string \<times> val) list option"

text \<open>
  The value a panic carries, as \<^verbatim>\<open>recover()\<close> returns it. \<open>PNil\<close> is
  \<^verbatim>\<open>panic(nil)\<close>, for which \<^verbatim>\<open>recover()\<close> returns nil (Go before 1.21; later
  runtimes replace the value by a runtime error, that is a \<open>PError\<close>).
\<close>

datatype pval = PNil | PString string | PError string | PInt int

datatype outcome = Returned | Panicked pval

text \<open>
  The calls made on an \<^verbatim>\<open>http.ResponseWriter\<close>, oldest first:
  \<^verbatim>\<open>rw.Header().Set(k, v)\<close>, \<^verbatim>\<open>rw.WriteHeader(code)\<close> and \<^verbatim>\<open>rw.Write(bytes)\<close>.
\<close>

datatype rw_call = SetHeader string string | WriteHeader int | Write string

text \<open>
  What the package reads of an \<^verbatim>\<open>*http.Request\<close>: \<open>Header_Get r k\<close> is
  \<^verbatim>\<open>r.Header.Get(k)\<close> (the empty string when the header is absent), \<open>ParseForm r\<close> is
  the error of \<^verbatim>\<open>r.ParseForm()\<close> (\<open>None\<close> for nil, otherwise its message) and
  \<open>Body_Decode r\<close> is what \<^verbatim>\<open>json.NewDecoder(r.Body).Decode(&js)\<close> does.
\<close>

datatype decode_result =
    DecodeOK "(string \<times> val) list option"
  | DecodeEOF
  | DecodeError string

record request =
  Method :: string
  URL_Path :: string
  RemoteAddr :: string
  Header_Get :: "string \<Rightarrow> string"
  ParseForm :: "string option"
  Body_Decode :: decode_result

datatype logger = Root | Logger nat

datatype lvl = LvlCrit | LvlError | LvlWarn | LvlInfo | LvlDebug

record log_record =
  Lgr :: logger
  Lvl :: lvl
  Msg :: string
  Ctx :: "val list"

text \<open>
  The state: \<^verbatim>\<open>c.Env\<close> (\<open>None\<close> is the nil map), the calls made on the response
  writer, the package variables \<^verbatim>\<open>reqID\<close> (an int64) and \<^verbatim>\<open>reqPrefix\<close>, and the
  records handed to log15.
\<close>

record state =
  Env :: "(string \<rightharpoonup> val) option"
  rw :: "rw_call list"
  reqID :: "64 word"
  reqPrefix :: string
  logs :: "log_record list"

type_synonym handler = "request \<Rightarrow> state \<Rightarrow> outcome \<times> state"

type_synonym middleware = "handler \<Rightarrow> handler"

subsection \<open>The Go runtime and the libraries\<close>

text \<open>Sequencing: a panic ends the function.\<close>

fun and_then :: "outcome \<times> state \<Rightarrow> (state \<Rightarrow> outcome \<times> state) \<Rightarrow> outcome \<times> state" where
  "and_then (Returned, s) f = f s"
| "and_then (Panicked p, s) f = (Panicked p, s)"

text \<open>\<^verbatim>\<open>c.Env[k] = v\<close>: an assignment to an entry of a nil map panics.\<close>

definition nil_map_panic :: pval where
  "nil_map_panic = PError ''assignment to entry in nil map''"

definition Env_set :: "string \<Rightarrow> val \<Rightarrow> state \<Rightarrow> outcome \<times> state" where
  "Env_set k v s =
     (case Env s of
        None \<Rightarrow> (Panicked nil_map_panic, s)
      | Some e \<Rightarrow> (Returned, s\<lparr>Env := Some (e(k \<mapsto> v))\<rparr>))"

text \<open>\<^verbatim>\<open>c.Env[k]\<close>: reading a nil map gives the zero value, like a missing key.\<close>

definition Env_get :: "state \<Rightarrow> string \<Rightarrow> val option" where
  "Env_get s k = (case Env s of None \<Rightarrow> None | Some e \<Rightarrow> e k)"

text \<open>
  goji's \<^verbatim>\<open>middleware.RequestIDKey\<close> and \<^verbatim>\<open>middleware.GetReqID\<close>: the request id
  when \<^verbatim>\<open>c.Env\<close> is not nil and holds a string under the key, else the empty string.
\<close>

definition RequestIDKey :: string where
  "RequestIDKey = ''reqID''"

definition GetReqID :: "state \<Rightarrow> string" where
  "GetReqID s = (case Env_get s RequestIDKey of Some (VString reqID') \<Rightarrow> reqID' | _ \<Rightarrow> [])"

text \<open>
  \<^verbatim>\<open>http.Error(w, error, code)\<close> of net/http: it sets the content type, writes the
  header with the code and prints the message and a newline.
\<close>

definition newline :: char where
  "newline = CHR 0x0A"

definition http_Error :: "string \<Rightarrow> int \<Rightarrow> rw_call list" where
  "http_Error error code =
     [SetHeader ''Content-Type'' ''text/plain; charset=utf-8'',
      SetHeader ''X-Content-Type-Options'' ''nosniff'',
      WriteHeader code,
      Write (error @ [newline])]"

text \<open>Decimal numerals, as \<^verbatim>\<open>strconv.Itoa\<close>, \<^verbatim>\<open>strconv.FormatInt(_, 10)\<close> and \<^verbatim>\<open>%d\<close> print them.\<close>

definition digit :: "nat \<Rightarrow> char" where
  "digit n = ''0123456789'' ! (n mod 10)"

function nat_dec :: "nat \<Rightarrow> string" where
  "nat_dec n = (if n < 10 then [digit n] else nat_dec (n div 10) @ [digit n])"
  by pat_completeness auto
termination
  by (relation "measure id") auto

declare nat_dec.simps [simp del]

definition Itoa :: "int \<Rightarrow> string" where
  "Itoa i = (if i < 0 then CHR ''-'' # nat_dec (nat (- i)) else nat_dec (nat i))"

text \<open>
  \<^verbatim>\<open>%v\<close> of a panic value, and the fragment of \<^verbatim>\<open>fmt.Sprintf\<close> the package uses:
  the verb \<^verbatim>\<open>%v\<close>.
\<close>

fun fmt_v :: "pval \<Rightarrow> string" where
  "fmt_v PNil = ''<nil>''"
| "fmt_v (PString x) = x"
| "fmt_v (PError e) = e"
| "fmt_v (PInt i) = Itoa i"

fun Sprintf :: "string \<Rightarrow> pval list \<Rightarrow> string" where
  "Sprintf [] args = []"
| "Sprintf [c] args = [c]"
| "Sprintf (c # d # cs) args =
     (if c = CHR ''%'' \<and> d = CHR ''v'' then
        (case args of
           [] \<Rightarrow> ''%!v(MISSING)'' @ Sprintf cs []
         | a # as \<Rightarrow> fmt_v a @ Sprintf cs as)
      else c # Sprintf (d # cs) args)"

subsection \<open>util.go\<close>

text \<open>
  \<^verbatim>\<open>ErrorString(c, rw, code, str)\<close>: the detail goes to \<^verbatim>\<open>c.Env["err"]\<close>; a code from
  500 on gets a generic message with the request id, any other code the detail.
\<close>

definition ErrorString :: "int \<Rightarrow> string \<Rightarrow> state \<Rightarrow> outcome \<times> state" where
  "ErrorString code str s =
     and_then (Env_set ''err'' (VString str) s) (\<lambda>s1.
       if code \<ge> 500 then
         (let errStr = ''Internal Error (request ID: '' @ GetReqID s1 @ '')''
          in (Returned, s1\<lparr>rw := rw s1 @ http_Error errStr code\<rparr>))
       else (Returned, s1\<lparr>rw := rw s1 @ http_Error str code\<rparr>))"

text \<open>\<^verbatim>\<open>Errorf(c, rw, code, message, args...)\<close>.\<close>

definition Errorf :: "int \<Rightarrow> string \<Rightarrow> pval list \<Rightarrow> state \<Rightarrow> outcome \<times> state" where
  "Errorf code message args s = (let str = Sprintf message args in ErrorString code str s)"


subsection \<open>Strings\<close>

text \<open>
  \<^verbatim>\<open>strings.Split(s, "\n")\<close>, \<^verbatim>\<open>strings.Replace(s, "\n", new, -1)\<close>,
  \<^verbatim>\<open>strings.HasPrefix\<close>, \<^verbatim>\<open>strings.Index(s, "(")\<close> (\<open>- 1\<close> when absent) and
  \<^verbatim>\<open>strings.TrimLeft(s, "\t")\<close>, each for a separator of one character.
\<close>

fun Split :: "string \<Rightarrow> char \<Rightarrow> string list" where
  "Split [] sep = [[]]"
| "Split (c # cs) sep =
     (if c = sep then [] # Split cs sep
      else (case Split cs sep of [] \<Rightarrow> [[c]] | l # ls \<Rightarrow> (c # l) # ls))"

definition Replace :: "string \<Rightarrow> char \<Rightarrow> string \<Rightarrow> string" where
  "Replace s old new = concat (map (\<lambda>c. if c = old then new else [c]) s)"

definition HasPrefix :: "string \<Rightarrow> string \<Rightarrow> bool" where
  "HasPrefix s p = (take (length p) s = p)"

fun Index :: "string \<Rightarrow> char \<Rightarrow> int" where
  "Index [] c = - 1"
| "Index (x # xs) c =
     (if x = c then 0 else (let i = Index xs c in if i < 0 then - 1 else i + 1))"

definition TrimLeft :: "string \<Rightarrow> char \<Rightarrow> string" where
  "TrimLeft s c = dropWhile (\<lambda>x. x = c) s"

definition tab :: char where
  "tab = CHR 0x09"

text \<open>
  \<^verbatim>\<open>strconv.Atoi\<close>: an optional sign and decimal digits, within int64. The message
  of its error quotes the input (escapes are not modelled).
\<close>

definition is_digit :: "char \<Rightarrow> bool" where
  "is_digit c = (c \<in> set ''0123456789'')"

definition digit_val :: "char \<Rightarrow> nat" where
  "digit_val c = of_char c - 48"

definition dec_val :: "string \<Rightarrow> nat" where
  "dec_val s = foldl (\<lambda>n c. 10 * n + digit_val c) 0 s"

definition NumError :: "string \<Rightarrow> string \<Rightarrow> string" where
  "NumError s msg = ''strconv.Atoi: parsing '' @ [CHR 0x22] @ s @ [CHR 0x22] @ '': '' @ msg"

definition Atoi :: "string \<Rightarrow> string + int" where
  "Atoi s0 =
     (let neg = (s0 \<noteq> [] \<and> hd s0 = CHR ''-'');
          s = (if s0 \<noteq> [] \<and> (hd s0 = CHR ''+'' \<or> hd s0 = CHR ''-'') then tl s0 else s0)
      in if s = [] \<or> \<not> list_all is_digit s then Inl (NumError s0 ''invalid syntax'')
         else (let n = int (dec_val s); v = (if neg then - n else n)
               in if v < - (2 ^ 63) \<or> 2 ^ 63 - 1 < v
                  then Inl (NumError s0 ''value out of range'')
                  else Inr v))"

subsection \<open>goji's response writer proxy\<close>

text \<open>
  \<^verbatim>\<open>mutil.WrapWriter(rw)\<close> of goji: the proxy forwards the calls to \<^verbatim>\<open>rw\<close>, where
  the first \<^verbatim>\<open>WriteHeader\<close> fixes the status, a \<^verbatim>\<open>Write\<close> before any
  \<^verbatim>\<open>WriteHeader\<close> writes the header with 200 first, and a later \<^verbatim>\<open>WriteHeader\<close> is
  dropped. \<open>Status\<close> is \<^verbatim>\<open>wp.Status()\<close> after the calls: 0 when no header was
  written. A response writer cannot be read, so the wrapped handler runs on a writer
  with no calls yet, and \<open>proxy\<close> gives what reaches \<^verbatim>\<open>rw\<close>.
\<close>

fun Status :: "rw_call list \<Rightarrow> int" where
  "Status [] = 0"
| "Status (SetHeader k v # cs) = Status cs"
| "Status (WriteHeader code # cs) = code"
| "Status (Write b # cs) = 200"

fun proxy :: "bool \<Rightarrow> rw_call list \<Rightarrow> rw_call list" where
  "proxy wroteHeader [] = []"
| "proxy wroteHeader (SetHeader k v # cs) = SetHeader k v # proxy wroteHeader cs"
| "proxy wroteHeader (WriteHeader code # cs) =
     (if wroteHeader then proxy wroteHeader cs else WriteHeader code # proxy True cs)"
| "proxy wroteHeader (Write b # cs) =
     (if wroteHeader then Write b # proxy wroteHeader cs
      else WriteHeader 200 # Write b # proxy True cs)"

definition WrapWriter :: "handler \<Rightarrow> request \<Rightarrow> state \<Rightarrow> outcome \<times> int \<times> state" where
  "WrapWriter h r s =
     (case h r (s\<lparr>rw := []\<rparr>) of
        (out, s1) \<Rightarrow> (out, Status (rw s1), s1\<lparr>rw := rw s @ proxy False (rw s1)\<rparr>))"

text \<open>
  The response writer of \<^verbatim>\<open>net/http\<close> treats the header the same way: the first
  \<^verbatim>\<open>WriteHeader\<close>, or the first \<^verbatim>\<open>Write\<close> (with 200), sends the status line, and a
  \<^verbatim>\<open>WriteHeader\<close> after that is ignored. \<open>wroteHeader\<close> tells whether the calls
  made on a response writer have sent the status line; when they have, \<open>Status\<close>
  of the calls is the status of the response the client gets.
\<close>

fun wroteHeader :: "rw_call list \<Rightarrow> bool" where
  "wroteHeader [] = False"
| "wroteHeader (SetHeader k v # cs) = wroteHeader cs"
| "wroteHeader (WriteHeader code # cs) = True"
| "wroteHeader (Write b # cs) = True"

text \<open>\<^verbatim>\<open>logger.Crit(msg, ctx...)\<close>, \<^verbatim>\<open>logger.Warn\<close>, \<^verbatim>\<open>logger.Info\<close>: one record.\<close>

definition emit :: "logger \<Rightarrow> lvl \<Rightarrow> string \<Rightarrow> val list \<Rightarrow> state \<Rightarrow> state" where
  "emit lg l msg ctx s = s\<lparr>logs := logs s @ [\<lparr>Lgr = lg, Lvl = l, Msg = msg, Ctx = ctx\<rparr>]\<rparr>"


subsection \<open>middleware.go, the newest revision\<close>

text \<open>
  \<^verbatim>\<open>EnvAdd(m)\<close>: the loop \<^verbatim>\<open>for k, v := range m { c.Env[k] = v }\<close>, then the next
  handler. The Go map \<^verbatim>\<open>m\<close> is the list of its entries in the order the loop
  visits them; the keys of a map are distinct.
\<close>

fun EnvAdd_range :: "(string \<times> val) list \<Rightarrow> state \<Rightarrow> outcome \<times> state" where
  "EnvAdd_range [] s = (Returned, s)"
| "EnvAdd_range ((k, v) # m) s = and_then (Env_set k v s) (EnvAdd_range m)"

definition EnvAdd :: "(string \<times> val) list \<Rightarrow> middleware" where
  "EnvAdd m h r s = and_then (EnvAdd_range m s) (h r)"

text \<open>
  \<^verbatim>\<open>Logger15(logger)\<close>. The \<^verbatim>\<open>[]string\<close> case of the stack reads \<^verbatim>\<open>s[0]\<close> (a panic
  on an empty slice) and cuts each function line at its first \<^verbatim>\<open>(\<close> (a panic when
  there is none). \<open>stack_levels n i\<close> is the loop with \<open>n = levels - i\<close> rounds left.
\<close>

fun stack_levels :: "nat \<Rightarrow> nat \<Rightarrow> string list \<Rightarrow> val list \<Rightarrow> pval + val list" where
  "stack_levels 0 i s ctx = Inr ctx"
| "stack_levels (Suc n) i s ctx =
     (if 2 * i + 1 < length s then
        (let j = Index (s ! (2 * i)) (CHR ''('')
         in if j < 0 then Inl (PError ''slice bounds out of range'')
            else (let funcName = take (nat j) (s ! (2 * i));
                      sourceLine = TrimLeft (s ! (2 * i + 1)) tab
                  in stack_levels n (i + 1) s
                       (ctx @ [VString (''stack'' @ Itoa (int i)),
                               VString (funcName @ '' @ '' @ sourceLine)])))
      else Inr ctx)"

definition levels :: nat where
  "levels = 3"

definition stack_ctx :: "val option \<Rightarrow> val list \<Rightarrow> pval + val list" where
  "stack_ctx v ctx =
     (case v of
        Some (VString s) \<Rightarrow> Inr (ctx @ [VString ''stack'', VString s])
      | Some (VStrings s) \<Rightarrow>
          (case s of
             [] \<Rightarrow> Inl (PError ''index out of range'')
           | s0 # _ \<Rightarrow>
               stack_levels levels 0
                 (if HasPrefix s0 ''goroutine'' \<and> 3 < length s then drop 3 s else s) ctx)
      | _ \<Rightarrow> Inr ctx)"

text \<open>
  The handler of \<^verbatim>\<open>Logger15\<close> in its three parts: the context entries about the
  request (\<open>request_ctx\<close>), the call of the next handler on the proxy, and the
  entries about the response (\<open>response_ctx\<close>) with the choice of the level.
  \<open>elapsed\<close> is \<^verbatim>\<open>time.Now().Sub(start).String()\<close>.
\<close>

definition request_ctx :: "request \<Rightarrow> state \<Rightarrow> val list" where
  "request_ctx r s =
     (let id' = GetReqID s;
          ctx0 = (if id' \<noteq> [] then [VString ''req'', VString id'] else []);
          ctx1 = ctx0 @ [VString ''verb'', VString (Method r)];
          ip = RemoteAddr r
      in if ip \<noteq> [] then ctx1 @ [VString ''ip'', VString ip] else ctx1)"

definition response_ctx :: "val list \<Rightarrow> string \<Rightarrow> int \<Rightarrow> state \<Rightarrow> val list" where
  "response_ctx ctx elapsed st s1 =
     (let ctx3 = ctx @ [VString ''time'', VString elapsed];
          ctx4 = ctx3 @ [VString ''status'', VString (Itoa st)]
      in case Env_get s1 ''err'' of
           Some (VString e) \<Rightarrow> ctx4 @ [VString ''err'', VString e]
         | _ \<Rightarrow> ctx4)"

definition Logger15 :: "logger \<Rightarrow> string \<Rightarrow> middleware" where
  "Logger15 logger' elapsed h r s =
     (let ctx = request_ctx r s;
          path = URL_Path r
      in case WrapWriter h r s of
           (Panicked p, st, s1) \<Rightarrow> (Panicked p, s1)
         | (Returned, st, s1) \<Rightarrow>
             (let ctx5 = response_ctx ctx elapsed st s1
              in if st \<ge> 500 then
                   (case stack_ctx (Env_get s1 ''stack'') ctx5 of
                      Inl p \<Rightarrow> (Panicked p, s1)
                    | Inr ctx6 \<Rightarrow> (Returned, emit logger' LvlCrit path ctx6 s1))
                 else if st \<ge> 400 then (Returned, emit logger' LvlWarn path ctx5 s1)
                 else (Returned, emit logger' LvlInfo path ctx5 s1)))"

text \<open>
  \<^verbatim>\<open>Recoverer\<close>. \<open>stack\<close> is the text \<^verbatim>\<open>runtime.Stack\<close> writes in the deferred
  function. \<^verbatim>\<open>recover()\<close> is nil when the handler returned, and for \<^verbatim>\<open>panic(nil)\<close>;
  \<^verbatim>\<open>lines[3:]\<close> panics on fewer than three lines. A panic of the deferred function
  leaves the middleware.
\<close>

definition Recoverer :: "string \<Rightarrow> middleware" where
  "Recoverer stack h r s =
     (case h r s of
        (Returned, s1) \<Rightarrow> (Returned, s1)
      | (Panicked err, s1) \<Rightarrow>
          if err \<noteq> PNil then
            (let lines = Split stack newline
             in if length lines < 3 then (Panicked (PError ''slice bounds out of range''), s1)
                else and_then (Env_set ''stack'' (VStrings (drop 3 lines)) s1)
                       (Errorf 500 ''panic: %v'' [err]))
          else (Returned, s1))"

text \<open>\<^verbatim>\<open>FormParser\<close>.\<close>

definition StatusBadRequest :: int where
  "StatusBadRequest = 400"

definition FormParser :: middleware where
  "FormParser h r s =
     (case ParseForm r of
        Some err \<Rightarrow> ErrorString StatusBadRequest err s
      | None \<Rightarrow> h r s)"

text \<open>
  \<^verbatim>\<open>RequestID\<close>. \<open>next_id\<close> is the choice of the id (the first lines of the handler):
  the header when it is not empty, else \<^verbatim>\<open>fmt.Sprintf("%s-%d", reqPrefix, atomic.AddInt64(&reqID, 1))\<close>;
  the addition wraps around, as int64 does.
\<close>

definition RequestIDHeader :: string where
  "RequestIDHeader = ''X-Request-Id''"

definition next_id :: "request \<Rightarrow> state \<Rightarrow> string \<times> state" where
  "next_id r s =
     (let id' = Header_Get r RequestIDHeader
      in if id' = [] then
           (let n = reqID s + 1
            in (reqPrefix s @ ''-'' @ Itoa (sint n), s\<lparr>reqID := n\<rparr>))
         else (id', s))"

definition RequestID :: middleware where
  "RequestID h r s =
     (case next_id r s of
        (id', s1) \<Rightarrow> and_then (Env_set RequestIDKey (VString id') s1) (h r))"

text \<open>\<^verbatim>\<open>GetJSONBody\<close>.\<close>

definition GetJSONBody :: middleware where
  "GetJSONBody h r s =
     (let clh = Header_Get r ''content-length''
      in case (if clh \<noteq> [] then Atoi clh else Inr 0) of
           Inl err \<Rightarrow> ErrorString 400 (''Invalid content-length: '' @ err) s
         | Inr cl \<Rightarrow>
             (let ct = Header_Get r ''content-type''
              in if ct \<noteq> [] \<and> ct \<noteq> ''application/json'' then
                   ErrorString 400
                     (''Invalid content-type '' @ [CHR 0x27] @ ct @ [CHR 0x27]
                        @ '', application/json expected'') s
                 else
                   (case Body_Decode r of
                      DecodeEOF \<Rightarrow>
                        if cl \<noteq> 0 then ErrorString 400 ''Premature EOF reading post body'' s
                        else and_then (Env_set ''json'' (VObject None) s) (h r)
                    | DecodeOK js \<Rightarrow> and_then (Env_set ''json'' (VObject js) s) (h r)
                    | DecodeError e \<Rightarrow>
                        ErrorString 400 (''Cannot parse JSON request body: '' @ e) s)))"

subsection \<open>middleware.go, the revision of src/middleware.go\<close>

text \<open>
  \<^verbatim>\<open>Logger15\<close> of this revision does not name its parameter and calls log15's
  package functions \<^verbatim>\<open>log15.Crit\<close>, \<^verbatim>\<open>log15.Warn\<close> and \<^verbatim>\<open>log15.Info\<close>, which log
  to the root logger. Its context is a map, written here as its entries in the order
  of the assignments; \<open>elapsed\<close> is the duration \<^verbatim>\<open>time.Now().Sub(start)\<close>.
\<close>

definition request_ctx_rev0 :: "request \<Rightarrow> state \<Rightarrow> val list" where
  "request_ctx_rev0 r s =
     (let ctx0 = [VString ''verb'', VString (Method r)];
          id' = GetReqID s;
          ctx1 = (if id' \<noteq> [] then ctx0 @ [VString ''id'', VString id'] else ctx0);
          ip = RemoteAddr r
      in if ip \<noteq> [] then ctx1 @ [VString ''ip'', VString ip] else ctx1)"

definition response_ctx_rev0 :: "val list \<Rightarrow> int \<Rightarrow> int \<Rightarrow> state \<Rightarrow> val list" where
  "response_ctx_rev0 ctx elapsed st s1 =
     (let ctx3 = ctx @ [VString ''time'', VInt elapsed];
          ctx4 = ctx3 @ [VString ''status'', VInt st]
      in case Env_get s1 ''err'' of
           Some (VString e) \<Rightarrow> ctx4 @ [VString ''err'', VString e]
         | _ \<Rightarrow> ctx4)"

definition Logger15_rev0 :: "logger \<Rightarrow> int \<Rightarrow> middleware" where
  "Logger15_rev0 logger' elapsed h r s =
     (let ctx = request_ctx_rev0 r s;
          path = URL_Path r
      in case WrapWriter h r s of
           (Panicked p, st, s1) \<Rightarrow> (Panicked p, s1)
         | (Returned, st, s1) \<Rightarrow>
             (let ctx5 = response_ctx_rev0 ctx elapsed st s1
              in if st \<ge> 500 then
                   (let ctx6 = (case Env_get s1 ''stack'' of
                                  Some (VString st') \<Rightarrow> ctx5 @ [VString ''stack'', VString st']
                                | _ \<Rightarrow> ctx5)
                    in (Returned, emit Root LvlCrit path ctx6 s1))
                 else if st \<ge> 400 then (Returned, emit Root LvlWarn path ctx5 s1)
                 else (Returned, emit Root LvlInfo path ctx5 s1)))"

definition Recoverer_rev0 :: "string \<Rightarrow> middleware" where
  "Recoverer_rev0 stack h r s =
     (case h r s of
        (Returned, s1) \<Rightarrow> (Returned, s1)
      | (Panicked err, s1) \<Rightarrow>
          if err \<noteq> PNil then
            and_then (Env_set ''stack'' (VString (Replace stack newline '' || '')) s1)
              (Errorf 500 ''panic: %v'' [err])
          else (Returned, s1))"

text \<open>
  \<^verbatim>\<open>RequestID\<close> of this revision: the fallback id is
  \<^verbatim>\<open>strconv.FormatInt(atomic.AddInt64(&reqid, 1), 10)\<close>, with no prefix.
\<close>

definition next_id_rev0 :: "request \<Rightarrow> state \<Rightarrow> string \<times> state" where
  "next_id_rev0 r s =
     (let id' = Header_Get r RequestIDHeader
      in if id' = [] then
           (let n = reqID s + 1 in (Itoa (sint n), s\<lparr>reqID := n\<rparr>))
         else (id', s))"

definition RequestID_rev0 :: middleware where
  "RequestID_rev0 h r s =
     (case next_id_rev0 r s of
        (id', s1) \<Rightarrow> and_then (Env_set RequestIDKey (VString id') s1) (h r))"


subsection \<open>Startup: the request id prefix\<close>

text \<open>
  \<^verbatim>\<open>base64.StdEncoding.EncodeToString\<close>, and the package's \<^verbatim>\<open>init\<close>: it reads 12
  random bytes, encodes them, drops \<^verbatim>\<open>+\<close> and \<^verbatim>\<open>/\<close>, and repeats until 10
  characters are left; they are \<^verbatim>\<open>reqPrefix\<close>. The random source is the list of
  the reads of \<^verbatim>\<open>rand.Read\<close>; \<open>None\<close> when the list ends before the loop does.
\<close>

definition b64 :: "nat \<Rightarrow> char" where
  "b64 n =
     ''ABCDEFGHIJKLMNOPQRSTUVWXYZabcdefghijklmnopqrstuvwxyz0123456789+/'' ! (n mod 64)"

fun EncodeToString :: "8 word list \<Rightarrow> string" where
  "EncodeToString [] = []"
| "EncodeToString [a] =
     (let n = unat a * 65536
      in [b64 (n div 262144), b64 (n div 4096), CHR ''='', CHR ''=''])"
| "EncodeToString [a, b] =
     (let n = unat a * 65536 + unat b * 256
      in [b64 (n div 262144), b64 (n div 4096), b64 (n div 64), CHR ''=''])"
| "EncodeToString (a # b # c # bs) =
     (let n = unat a * 65536 + unat b * 256 + unat c
      in [b64 (n div 262144), b64 (n div 4096), b64 (n div 64), b64 n] @ EncodeToString bs)"

definition Read :: "8 word list \<Rightarrow> 8 word list \<Rightarrow> 8 word list" where
  "Read buf bytes = take (length buf) (bytes @ drop (length bytes) buf)"

fun init_loop :: "string \<Rightarrow> 8 word list \<Rightarrow> 8 word list list \<Rightarrow> string option" where
  "init_loop b64' buf [] = (if length b64' < 10 then None else Some b64')"
| "init_loop b64' buf (bytes # reads) =
     (if length b64' < 10 then
        (let buf1 = Read buf bytes;
             b64_1 = EncodeToString buf1;
             b64_2 = filter (\<lambda>c. c \<noteq> CHR ''+'' \<and> c \<noteq> CHR ''/'') b64_1
         in init_loop b64_2 buf1 reads)
      else Some b64')"

definition init :: "8 word list list \<Rightarrow> string option" where
  "init reads = map_option (take 10) (init_loop [] (replicate 12 0) reads)"

text \<open>
  The start of the process: Go gives \<^verbatim>\<open>var reqID int64\<close> its zero value and runs the
  package's \<^verbatim>\<open>init\<close> once, before \<^verbatim>\<open>main\<close>; \<^verbatim>\<open>init\<close> holds the only assignment to
  \<^verbatim>\<open>reqPrefix\<close> in the package. No request has been served: no context, nothing
  written, nothing logged.
\<close>

definition startup :: "8 word list list \<Rightarrow> state option" where
  "startup reads =
     (case init reads of
        None \<Rightarrow> None
      | Some p \<Rightarrow> Some \<lparr>Env = None, rw = [], reqID = 0, reqPrefix = p, logs = []\<rparr>)"

text \<open>The characters of the base64 alphabet that \<^verbatim>\<open>init\<close> does not drop.\<close>

definition alphanumeric :: string where
  "alphanumeric = ''ABCDEFGHIJKLMNOPQRSTUVWXYZabcdefghijklmnopqrstuvwxyz0123456789''"

subsection \<open>Package variables; requests served concurrently\<close>

text \<open>
  A handler keeps a package variable when no run of it changes the variable. Code
  outside the package cannot name \<^verbatim>\<open>reqID\<close> and \<^verbatim>\<open>reqPrefix\<close>, so it keeps them.
\<close>

definition keeps :: "(state \<Rightarrow> 'a) \<Rightarrow> handler \<Rightarrow> bool" where
  "keeps var h = (\<forall>r s. var (snd (h r s)) = var s)"

text \<open>
  \<^verbatim>\<open>net/http\<close> serves every request in a goroutine of its own, and the goroutines
  share the package variable \<^verbatim>\<open>reqID\<close>. What a goroutine does to \<^verbatim>\<open>reqID\<close> is a list
  of accesses, each of them one indivisible step; between two steps of one goroutine
  the others may take any number of steps. \<^verbatim>\<open>atomic.AddInt64(&reqID, 1)\<close> is one
  access: it adds one (wrapping around, as int64 does) and gives the new value to
  the goroutine. \<^verbatim>\<open>atomic.LoadInt64\<close> and \<^verbatim>\<open>atomic.StoreInt64\<close> are the accesses of
  an increment that is not atomic, \<^verbatim>\<open>n := atomic.LoadInt64(&reqID) + 1\<close> and then
  \<^verbatim>\<open>atomic.StoreInt64(&reqID, n)\<close>; the package does not use them, and they are
  here to tell the two kinds of increment apart.

  A goroutine is the accesses it has still to do and the number it has got for its
  request id, if any.
\<close>

datatype action = AddInt64 | LoadInt64 | StoreInt64

type_synonym goroutine = "action list \<times> 64 word option"

fun access :: "action \<Rightarrow> 64 word \<times> 64 word option \<Rightarrow> 64 word \<times> 64 word option" where
  "access AddInt64 (c, n) = (c + 1, Some (c + 1))"
| "access LoadInt64 (c, n) = (c, Some c)"
| "access StoreInt64 (c, n) = (case n of None \<Rightarrow> (c, n) | Some v \<Rightarrow> (v + 1, Some (v + 1)))"

text \<open>
  The accesses of \<^verbatim>\<open>RequestID\<close> (in every revision) for a request: the one
  \<^verbatim>\<open>atomic.AddInt64\<close> when the \<^verbatim>\<open>X-Request-Id\<close> header is empty, none otherwise.
  No other line of the package names \<^verbatim>\<open>reqID\<close>.
\<close>

definition reqID_accesses :: "request \<Rightarrow> action list" where
  "reqID_accesses r = (if Header_Get r RequestIDHeader = [] then [AddInt64] else [])"

definition goroutines :: "request list \<Rightarrow> goroutine list" where
  "goroutines rs = map (\<lambda>r. (reqID_accesses r, None)) rs"

text \<open>
  A schedule lists, step by step, the goroutine that runs next; a goroutine that
  has finished (or is not there) does nothing. \<open>interleave\<close> runs a schedule on the
  counter and the goroutines.
\<close>

fun interleave :: "nat list \<Rightarrow> 64 word \<times> goroutine list \<Rightarrow> 64 word \<times> goroutine list" where
  "interleave [] (c, ts) = (c, ts)"
| "interleave (i # sched) (c, ts) =
     (if i < length ts then
        (case ts ! i of
           ([], n) \<Rightarrow> interleave sched (c, ts)
         | (a # as, n) \<Rightarrow>
             (case access a (c, n) of
                (c', n') \<Rightarrow> interleave sched (c', ts[i := (as, n')])))
      else interleave sched (c, ts))"

text \<open>The number of goroutines that have got a number for their request id.\<close>

definition generated :: "goroutine list \<Rightarrow> nat" where
  "generated ts = length (filter (\<lambda>t. snd t \<noteq> None) ts)"

subsection \<open>Example requests, states and handlers\<close>

definition plain_request :: request where
  "plain_request =
     \<lparr>Method = ''POST'', URL_Path = ''/'', RemoteAddr = ''10.0.0.1'',
      Header_Get = (\<lambda>k. []), ParseForm = None, Body_Decode = DecodeEOF\<rparr>"

definition tagged_request :: request where
  "tagged_request =
     plain_request\<lparr>Header_Get := (\<lambda>k. if k = RequestIDHeader then ''abc'' else [])\<rparr>"

definition bad_form_request :: request where
  "bad_form_request = plain_request\<lparr>ParseForm := Some ''invalid URL escape''\<rparr>"

definition text_request :: request where
  "text_request =
     plain_request\<lparr>Header_Get := (\<lambda>k. if k = ''content-type'' then ''text/plain'' else [])\<rparr>"

definition bad_json_request :: request where
  "bad_json_request = plain_request\<lparr>Body_Decode := DecodeError ''unexpected end of JSON input''\<rparr>"

definition nil_Env_state :: state where
  "nil_Env_state = \<lparr>Env = None, rw = [], reqID = 0, reqPrefix = ''abcdefghij'', logs = []\<rparr>"

definition empty_Env_state :: state where
  "empty_Env_state =
     \<lparr>Env = Some Map.empty, rw = [], reqID = 0, reqPrefix = ''abcdefghij'', logs = []\<rparr>"

definition writing_handler :: handler where
  "writing_handler r s = (Returned, s\<lparr>rw := rw s @ [Write ''13 characters'']\<rparr>)"

definition panicking_handler :: handler where
  "panicking_handler r s = (Panicked (PString ''boom''), s)"

definition writing_panicking_handler :: handler where
  "writing_panicking_handler r s =
     (Panicked (PString ''boom''), s\<lparr>rw := rw s @ [Write ''partial '']\<rparr>)"

text \<open>
  One more request without an \<^verbatim>\<open>X-Request-Id\<close> header, served by \<^verbatim>\<open>RequestID\<close>
  with a context and a response writer of its own.
\<close>

definition fallback_run :: "state \<Rightarrow> state" where
  "fallback_run s =
     snd (RequestID writing_handler plain_request (s\<lparr>Env := Some Map.empty, rw := []\<rparr>))"

text \<open>
  Two reads of \<^verbatim>\<open>rand.Read\<close>: the bytes of \<^verbatim>\<open>Hello World!\<close>, and twelve bytes
  \<^verbatim>\<open>0xff\<close>, whose encoding is sixteen times \<^verbatim>\<open>/\<close>. The state after a startup that
  reads the second and then the first.
\<close>

definition random_read :: "8 word list" where
  "random_read = [72, 101, 108, 108, 111, 32, 87, 111, 114, 108, 100, 33]"

definition rejected_read :: "8 word list" where
  "rejected_read = [255, 255, 255, 255, 255, 255, 255, 255, 255, 255, 255, 255]"

definition started_state :: state where
  "started_state = \<lparr>Env = None, rw = [], reqID = 0, reqPrefix = ''SGVsbG8gV2'', logs = []\<rparr>"

definition short_body_request :: request where
  "short_body_request =
     plain_request\<lparr>Header_Get := (\<lambda>k. if k = ''content-length'' then ''5'' else [])\<rparr>"

definition zero_length_request :: request where
  "zero_length_request =
     plain_request\<lparr>Header_Get := (\<lambda>k. if k = ''content-length'' then ''0'' else [])\<rparr>"

text \<open>A stack dump as \<^verbatim>\<open>runtime.Stack\<close> writes it.\<close>

definition three_line_stack :: string where
  "three_line_stack =
     ''goroutine 5 [running]:'' @ [newline] @ ''gojiutil.func1()'' @ [newline, tab] @ ''/src/middleware.go:163 +0x5c''
       @ [newline] @ ''main.crash(0x1)'' @ [newline, tab] @ ''/src/main.go:12 +0x1d'' @ [newline]"

subsection \<open>Predicates of the statements\<close>

text \<open>
  \<^verbatim>\<open>Logger15\<close> renders \<^verbatim>\<open>c.Env["stack"]\<close> without a panic: the value is not a
  \<^verbatim>\<open>[]string\<close>, or it is one that is not empty and whose function lines, as far as
  the loop reads them, hold a \<^verbatim>\<open>(\<close>.
\<close>

definition stack_renders :: "val option \<Rightarrow> bool" where
  "stack_renders v = (case stack_ctx v [] of Inl p \<Rightarrow> False | Inr ctx \<Rightarrow> True)"

text \<open>
  \<open>frame var\<close>: the variable \<open>var\<close> of the state is none of \<^verbatim>\<open>c.Env\<close>, the
  response writer and the logs. \<open>counts g\<close>: a run of \<open>g\<close> adds one to \<^verbatim>\<open>reqID\<close>
  when the request has no \<^verbatim>\<open>X-Request-Id\<close> header and leaves it otherwise.
\<close>

definition frame :: "(state \<Rightarrow> 'a) \<Rightarrow> bool" where
  "frame var = (\<forall>s e w l. var (s\<lparr>Env := e\<rparr>) = var s \<and> var (s\<lparr>rw := w\<rparr>) = var s \<and>
     var (s\<lparr>logs := l\<rparr>) = var s)"

definition counts :: "handler \<Rightarrow> bool" where
  "counts g = (\<forall>r s. reqID (snd (g r s)) =
     (if Header_Get r RequestIDHeader = [] then reqID s + 1 else reqID s))"

text \<open>
  What every schedule keeps of the counter \<open>c\<close> and the goroutines \<open>ts\<close> of
  \<^verbatim>\<open>RequestID\<close>, started with the counter at \<open>c0\<close>: a goroutine has its one
  \<^verbatim>\<open>atomic.AddInt64\<close> to do and no number, or nothing to do; the counter is \<open>c0\<close>
  plus the number of goroutines that have a number; the numbers are above \<open>c0\<close>, not
  above the counter, and no two goroutines have the same.
\<close>

definition counter_inv :: "64 word \<Rightarrow> 64 word \<times> goroutine list \<Rightarrow> bool" where
  "counter_inv c0 x = (case x of (c, ts) \<Rightarrow>
     (\<forall>t \<in> set ts. t = ([AddInt64], None) \<or> fst t = []) \<and>
     sint c = sint c0 + int (generated ts) \<and>
     (\<forall>i < length ts. \<forall>v. snd (ts ! i) = Some v \<longrightarrow> sint c0 < sint v \<and> sint v \<le> sint c) \<and>
     (\<forall>i < length ts. \<forall>j < length ts. \<forall>v.
        snd (ts ! i) = Some v \<and> snd (ts ! j) = Some v \<longrightarrow> i = j))"

section \<open>Properties\<close>

subsection \<open>Helpers\<close>

lemma Env_set_Some: "Env s = Some e \<Longrightarrow> Env_set k v s = (Returned, s\<lparr>Env := Some (e(k \<mapsto> v))\<rparr>)"
  by (simp add: Env_set_def)

lemma Env_set_None: "Env s = None \<Longrightarrow> Env_set k v s = (Panicked nil_map_panic, s)"
  by (simp add: Env_set_def)

lemma ErrorString_Some:
  "Env s = Some e \<Longrightarrow>
   ErrorString code str s =
     (Returned,
      s\<lparr>Env := Some (e(''err'' \<mapsto> VString str)),
        rw := rw s @ http_Error
                (if code \<ge> 500 then ''Internal Error (request ID: '' @ GetReqID s @ '')''
                 else str) code\<rparr>)"
  by (simp add: ErrorString_def Env_set_Some GetReqID_def Env_get_def RequestIDKey_def)

lemma ErrorString_None: "Env s = None \<Longrightarrow> ErrorString code str s = (Panicked nil_map_panic, s)"
  by (simp add: ErrorString_def Env_set_None)

lemma Sprintf_panic: "Sprintf ''panic: %v'' [err] = ''panic: '' @ fmt_v err"
  by simp

lemma GetReqID_upd:
  "k \<noteq> RequestIDKey \<Longrightarrow> Env s = Some e \<Longrightarrow> GetReqID (s\<lparr>Env := Some (e(k \<mapsto> v))\<rparr>) = GetReqID s"
  by (simp add: GetReqID_def Env_get_def)

lemma map_add_upd_left:
  "k \<notin> fst ` set m \<Longrightarrow> e(k \<mapsto> v) ++ map_of m = (e ++ map_of m)(k \<mapsto> v)"
proof
  fix x
  assume "k \<notin> fst ` set m"
  then have "map_of m k = None" by (simp add: map_of_eq_None_iff)
  then show "(e(k \<mapsto> v) ++ map_of m) x = ((e ++ map_of m)(k \<mapsto> v)) x"
    by (simp add: map_add_def split: option.splits)
qed

lemma EnvAdd_range_allocated:
  "Env s \<noteq> None \<Longrightarrow> distinct (map fst m) \<Longrightarrow>
   EnvAdd_range m s = (Returned, s\<lparr>Env := Some (the (Env s) ++ map_of m)\<rparr>)"
proof (induction m arbitrary: s)
  case Nil
  then show ?case by auto
next
  case (Cons kv m)
  obtain k v where kv: "kv = (k, v)" by (cases kv)
  obtain e where e: "Env s = Some e" using Cons.prems(1) by auto
  from Cons.prems kv have notin: "k \<notin> fst ` set m" and dist: "distinct (map fst m)"
    by auto
  let ?s1 = "s\<lparr>Env := Some (e(k \<mapsto> v))\<rparr>"
  have "EnvAdd_range (kv # m) s = EnvAdd_range m ?s1"
    using e kv by (simp add: Env_set_Some)
  also have "\<dots> = (Returned, ?s1\<lparr>Env := Some (the (Env ?s1) ++ map_of m)\<rparr>)"
    by (rule Cons.IH) (simp_all add: dist)
  also have "\<dots> = (Returned, s\<lparr>Env := Some (e(k \<mapsto> v) ++ map_of m)\<rparr>)"
    by simp
  finally have run: "EnvAdd_range (kv # m) s = (Returned, s\<lparr>Env := Some (e(k \<mapsto> v) ++ map_of m)\<rparr>)" .
  have "map_of (kv # m) = (map_of m)(k \<mapsto> v)"
    using kv by simp
  then have "the (Env s) ++ map_of (kv # m) = e(k \<mapsto> v) ++ map_of m"
    using e map_add_upd_left [OF notin, of e v] by (simp only: map_add_upd option.sel)
  with run show ?case by (simp only:)
qed

lemma EnvAdd_range_Some:
  "Env s = Some e \<Longrightarrow> distinct (map fst m) \<Longrightarrow>
   EnvAdd_range m s = (Returned, s\<lparr>Env := Some (e ++ map_of m)\<rparr>)"
  using EnvAdd_range_allocated [of s m] by simp

lemma stack_levels_any_ctx:
  "stack_levels n i s ctx = Inr c \<Longrightarrow> \<exists>c'. stack_levels n i s ctx' = Inr c'"
proof (induction n arbitrary: i ctx ctx' c)
  case 0
  then show ?case by simp
next
  case (Suc n)
  show ?case
  proof (cases "2 * i + 1 < length s")
    case False
    then show ?thesis by simp
  next
    case True
    show ?thesis
    proof (cases "Index (s ! (2 * i)) (CHR ''('') < 0")
      case neg: True
      with True Suc.prems show ?thesis by (simp add: Let_def)
    next
      case False
      with True Suc.prems Suc.IH show ?thesis
        by (simp add: Let_def)
    qed
  qed
qed

lemma stack_ctx_renders:
  "stack_renders v \<Longrightarrow> \<exists>c. stack_ctx v ctx = Inr c"
  unfolding stack_renders_def stack_ctx_def
  by (auto split: option.splits val.splits list.splits sum.splits if_splits
      dest: stack_levels_any_ctx [where ctx' = ctx])

text \<open>What \<open>stack_renders\<close> asks of the value of \<^verbatim>\<open>c.Env["stack"]\<close>.\<close>

lemma Index_neg: "Index s c < 0 \<longleftrightarrow> c \<notin> set s"
  by (induction s) (auto simp: Let_def)

lemma stack_levels_renders:
  "(\<exists>c. stack_levels n i s ctx = Inr c) \<longleftrightarrow>
   (\<forall>j. i \<le> j \<and> j < i + n \<and> 2 * j + 1 < length s \<longrightarrow> CHR ''('' \<in> set (s ! (2 * j)))"
proof (induction n arbitrary: i ctx)
  case 0
  show ?case by auto
next
  case (Suc n)
  show ?case
  proof (cases "2 * i + 1 < length s")
    case False
    then have "\<not> 2 * j + 1 < length s" if "i \<le> j" for j
      using that by simp
    with False show ?thesis by auto
  next
    case True
    show ?thesis
    proof (cases "CHR ''('' \<in> set (s ! (2 * i))")
      case False
      with True have "stack_levels (Suc n) i s ctx = Inl (PError ''slice bounds out of range'')"
        by (simp add: Index_neg Let_def)
      moreover from True False
      have "\<not> (\<forall>j. i \<le> j \<and> j < i + Suc n \<and> 2 * j + 1 < length s \<longrightarrow> CHR ''('' \<in> set (s ! (2 * j)))"
        by (intro notI) (drule spec [of _ i], simp)
      ultimately show ?thesis by simp
    next
      case in_s: True
      have split: "(\<forall>j. i \<le> j \<and> j < i + Suc n \<and> 2 * j + 1 < length s \<longrightarrow> CHR ''('' \<in> set (s ! (2 * j))) \<longleftrightarrow>
          (\<forall>j. i + 1 \<le> j \<and> j < i + 1 + n \<and> 2 * j + 1 < length s \<longrightarrow> CHR ''('' \<in> set (s ! (2 * j)))"
      proof
        assume a: "\<forall>j. i \<le> j \<and> j < i + Suc n \<and> 2 * j + 1 < length s \<longrightarrow> CHR ''('' \<in> set (s ! (2 * j))"
        show "\<forall>j. i + 1 \<le> j \<and> j < i + 1 + n \<and> 2 * j + 1 < length s \<longrightarrow> CHR ''('' \<in> set (s ! (2 * j))"
          using a by auto
      next
        assume a: "\<forall>j. i + 1 \<le> j \<and> j < i + 1 + n \<and> 2 * j + 1 < length s \<longrightarrow> CHR ''('' \<in> set (s ! (2 * j))"
        show "\<forall>j. i \<le> j \<and> j < i + Suc n \<and> 2 * j + 1 < length s \<longrightarrow> CHR ''('' \<in> set (s ! (2 * j))"
        proof (intro allI impI)
          fix j
          assume j: "i \<le> j \<and> j < i + Suc n \<and> 2 * j + 1 < length s"
          show "CHR ''('' \<in> set (s ! (2 * j))"
          proof (cases "j = i")
            case True
            with in_s show ?thesis by simp
          next
            case False
            with j a show ?thesis by auto
          qed
        qed
      qed
      from True in_s have "stack_levels (Suc n) i s ctx =
          stack_levels n (i + 1) s
            (ctx @ [VString (''stack'' @ Itoa (int i)),
                    VString (take (nat (Index (s ! (2 * i)) (CHR ''(''))) (s ! (2 * i)) @ '' @ ''
                              @ TrimLeft (s ! (2 * i + 1)) tab)])"
        by (simp add: Index_neg Let_def)
      then show ?thesis
        using Suc.IH [of "i + 1"] split by simp
    qed
  qed
qed

lemma stack_renders_iff:
  "stack_renders v \<longleftrightarrow>
   (case v of
      Some (VStrings s) \<Rightarrow>
        s \<noteq> [] \<and>
        (let s' = (if HasPrefix (hd s) ''goroutine'' \<and> 3 < length s then drop 3 s else s)
         in \<forall>j < levels. 2 * j + 1 < length s' \<longrightarrow> CHR ''('' \<in> set (s' ! (2 * j)))
    | _ \<Rightarrow> True)"
proof (cases v)
  case None
  then show ?thesis by (simp add: stack_renders_def stack_ctx_def)
next
  case (Some x)
  show ?thesis
  proof (cases x)
    case (VStrings s)
    show ?thesis
    proof (cases s)
      case Nil
      with Some VStrings show ?thesis by (simp add: stack_renders_def stack_ctx_def)
    next
      case (Cons s0 rest)
      define s' where "s' = (if HasPrefix s0 ''goroutine'' \<and> 3 < length s then drop 3 s else s)"
      have "stack_renders v \<longleftrightarrow> (\<exists>c. stack_levels levels 0 s' [] = Inr c)"
        using Some VStrings Cons
        by (auto simp: stack_renders_def stack_ctx_def s'_def split: sum.splits)
      also have "\<dots> \<longleftrightarrow> (\<forall>j < levels. 2 * j + 1 < length s' \<longrightarrow> CHR ''('' \<in> set (s' ! (2 * j)))"
        using stack_levels_renders [of levels 0 s' "[]"] by auto
      finally show ?thesis
        using Some VStrings Cons by (simp add: s'_def Let_def)
    qed
  qed (simp_all add: Some stack_renders_def stack_ctx_def)
qed

lemma Atoi_0: "Atoi ''0'' = Inr 0"
  by (simp add: Atoi_def is_digit_def dec_val_def digit_val_def)

lemma Atoi_5: "Atoi ''5'' = Inr 5"
  by (simp add: Atoi_def is_digit_def dec_val_def digit_val_def)

lemma three_line_stack_renders: "stack_renders (Some (VStrings (drop 3 (Split three_line_stack newline))))"
  by (simp add: stack_renders_def stack_ctx_def three_line_stack_def newline_def tab_def
      HasPrefix_def levels_def numeral_3_eq_3 Let_def TrimLeft_def Itoa_def nat_dec.simps digit_def)

text \<open>The encoding and \<^verbatim>\<open>init\<close> on a known input; the prefix has 10 characters.\<close>

lemma base64_vector:
  "EncodeToString [72, 101, 108, 108, 111, 32, 87, 111, 114, 108, 100, 33] = ''SGVsbG8gV29ybGQh''"
  by (simp add: b64_def Let_def)

lemma base64_pad: "EncodeToString [77] = ''TQ=='' \<and> EncodeToString [77, 97] = ''TWE=''"
  by (simp add: b64_def Let_def)

lemma init_vector:
  "init [[72, 101, 108, 108, 111, 32, 87, 111, 114, 108, 100, 33]] = Some ''SGVsbG8gV2''"
  by (simp add: init_def Read_def b64_def Let_def)

lemma init_loop_length: "init_loop b buf reads = Some p \<Longrightarrow> 10 \<le> length p"
  by (induction b buf reads rule: init_loop.induct) (auto simp: Let_def split: if_splits)

lemma init_length: "init reads = Some p \<Longrightarrow> length p = 10"
  by (auto simp: init_def dest: init_loop_length)

text \<open>The prefix that \<^verbatim>\<open>init\<close> computes: its characters, and the read it comes from.\<close>

lemma Read_length: "length (Read buf bytes) = length buf"
  by (simp add: Read_def)

lemma Read_full: "length bytes = length buf \<Longrightarrow> Read buf bytes = bytes"
  by (simp add: Read_def)

lemma b64_cases: "b64 n \<in> set alphanumeric \<or> b64 n = CHR ''+'' \<or> b64 n = CHR ''/''"
proof -
  have "b64 n \<in> set ''ABCDEFGHIJKLMNOPQRSTUVWXYZabcdefghijklmnopqrstuvwxyz0123456789+/''"
    unfolding b64_def by (rule nth_mem) simp
  then show ?thesis
    unfolding alphanumeric_def by (simp only: set_simps insert_iff empty_iff) blast
qed

lemma EncodeToString_chars:
  "length bs mod 3 = 0 \<Longrightarrow>
   set (filter (\<lambda>c. c \<noteq> CHR ''+'' \<and> c \<noteq> CHR ''/'') (EncodeToString bs)) \<subseteq> set alphanumeric"
proof (induction bs rule: EncodeToString.induct)
  case 1
  then show ?case by simp
next
  case (2 a)
  then show ?case by simp
next
  case (3 a b)
  then show ?case by simp
next
  case (4 a b c bs)
  then have "length bs mod 3 = 0" by simp
  with 4 show ?case
    using b64_cases by (auto simp: Let_def)
qed

lemma init_loop_chars:
  "init_loop b buf reads = Some p \<Longrightarrow> length buf mod 3 = 0 \<Longrightarrow>
   set b \<subseteq> set alphanumeric \<Longrightarrow> set p \<subseteq> set alphanumeric"
proof (induction b buf reads rule: init_loop.induct)
  case (1 b buf)
  then show ?case by (simp split: if_splits)
next
  case (2 b buf bytes reads)
  show ?case
  proof (cases "length b < 10")
    case False
    with 2 show ?thesis by simp
  next
    case True
    have len: "length (Read buf bytes) mod 3 = 0"
      using "2.prems"(2) by (simp add: Read_length)
    from True "2.prems"(1) have "init_loop
        (filter (\<lambda>c. c \<noteq> CHR ''+'' \<and> c \<noteq> CHR ''/'') (EncodeToString (Read buf bytes)))
        (Read buf bytes) reads = Some p"
      by (simp add: Let_def)
    then show ?thesis
      using "2.IH" [OF True refl refl refl] len EncodeToString_chars [OF len] by simp
  qed
qed

lemma init_chars: "init reads = Some p \<Longrightarrow> set p \<subseteq> set alphanumeric"
proof -
  assume "init reads = Some p"
  then obtain q where q: "init_loop [] (replicate 12 0) reads = Some q" and p: "p = take 10 q"
    by (auto simp: init_def)
  from q have "set q \<subseteq> set alphanumeric"
    by (rule init_loop_chars) simp_all
  with p show ?thesis
    using set_take_subset [of 10 q] by blast
qed

lemma init_loop_restart:
  "length b < 10 \<Longrightarrow> length buf = 12 \<Longrightarrow> length buf' = 12 \<Longrightarrow>
   list_all (\<lambda>bytes. length bytes = 12) reads \<Longrightarrow>
   init_loop b buf reads = init_loop [] buf' reads"
  by (cases reads) (simp_all add: Read_full Let_def)

lemma init_loop_done: "\<not> length b < 10 \<Longrightarrow> init_loop b buf reads = Some b"
  by (cases reads) simp_all

lemma init_first_read:
  "list_all (\<lambda>bytes. length bytes = 12) (bytes # reads) \<Longrightarrow>
   init (bytes # reads) =
     (let b64' = filter (\<lambda>c. c \<noteq> CHR ''+'' \<and> c \<noteq> CHR ''/'') (EncodeToString bytes)
      in if length b64' < 10 then init reads else Some (take 10 b64'))"
proof -
  assume full: "list_all (\<lambda>bytes. length bytes = 12) (bytes # reads)"
  define b where "b = filter (\<lambda>c. c \<noteq> CHR ''+'' \<and> c \<noteq> CHR ''/'') (EncodeToString bytes)"
  from full have rd: "Read (replicate 12 0) bytes = bytes"
    by (intro Read_full) simp
  have start: "init_loop [] (replicate 12 0) (bytes # reads) = init_loop b bytes reads"
    by (simp add: rd Let_def b_def)
  show ?thesis
  proof (cases "length b < 10")
    case True
    with full have "init_loop b bytes reads = init_loop [] (replicate 12 0) reads"
      by (intro init_loop_restart) simp_all
    with True start show ?thesis
      by (simp add: init_def b_def [symmetric] Let_def)
  next
    case False
    with start show ?thesis
      by (simp add: init_def b_def [symmetric] Let_def init_loop_done)
  qed
qed

lemma init_random_read: "init [random_read] = Some ''SGVsbG8gV2''"
  by (simp add: init_def Read_def b64_def Let_def random_read_def)

lemma init_rejected_read: "init [rejected_read, random_read] = Some ''SGVsbG8gV2''"
  by (simp add: init_def Read_def b64_def Let_def random_read_def rejected_read_def)

text \<open>Which parts of the state the middlewares touch; the counter over a run.\<close>

lemma and_then_frame:
  "var (snd x) = v \<Longrightarrow> (\<And>s'. var (snd (f s')) = var s') \<Longrightarrow> var (snd (and_then x f)) = v"
proof -
  assume v: "var (snd x) = v" and f: "\<And>s'. var (snd (f s')) = var s'"
  obtain out s where x: "x = (out, s)" by (cases x)
  with v f show ?thesis by (cases out) simp_all
qed

lemma sint_succ:
  fixes x :: "64 word"
  assumes "sint x < 2 ^ 63 - 1"
  shows "sint (x + 1) = sint x + 1"
proof -
  have lo: "- (2 ^ 63) \<le> sint x"
    using sint_ge [of x] by simp
  have "sint (x + 1) = signed_take_bit 63 (sint x + 1)"
    by (simp add: sint_word_ariths)
  also have "\<dots> = sint x + 1"
    using lo assms by (intro signed_take_bit_int_eq_self) simp_all
  finally show ?thesis .
qed

lemma keeps_RequestID_counts: "keeps reqID h \<Longrightarrow> counts (RequestID h)"
  unfolding counts_def keeps_def RequestID_def next_id_def Env_set_def
  by (auto simp: Let_def split: option.splits)

lemma keeps_RequestID_rev0_counts: "keeps reqID h \<Longrightarrow> counts (RequestID_rev0 h)"
  unfolding counts_def keeps_def RequestID_rev0_def next_id_rev0_def Env_set_def
  by (auto simp: Let_def split: option.splits)

lemma frame_reqID: "frame reqID"
  by (simp add: frame_def)

lemma frame_reqPrefix: "frame reqPrefix"
  by (simp add: frame_def)

lemma Env_set_frame: "frame var \<Longrightarrow> var (snd (Env_set k v s)) = var s"
  by (simp add: Env_set_def frame_def split: option.splits)

lemma ErrorString_frame: "frame var \<Longrightarrow> var (snd (ErrorString code str s)) = var s"
  by (cases "Env s") (simp_all add: ErrorString_Some ErrorString_None frame_def)

lemma EnvAdd_range_frame: "frame var \<Longrightarrow> var (snd (EnvAdd_range m s)) = var s"
proof (induction m arbitrary: s)
  case Nil
  then show ?case by simp
next
  case (Cons kv m)
  obtain k v where kv: "kv = (k, v)" by (cases kv)
  show ?case
    unfolding kv EnvAdd_range.simps
    by (rule and_then_frame) (simp_all add: Env_set_frame Cons)
qed

lemma keeps_EnvAdd: "frame var \<Longrightarrow> keeps var h \<Longrightarrow> keeps var (EnvAdd m h)"
  unfolding keeps_def EnvAdd_def
  by (intro allI, rule and_then_frame) (simp_all add: EnvAdd_range_frame)

lemma keeps_FormParser: "frame var \<Longrightarrow> keeps var h \<Longrightarrow> keeps var (FormParser h)"
  unfolding keeps_def FormParser_def
  by (auto simp: ErrorString_frame split: option.splits)

lemma keeps_GetJSONBody: "frame var \<Longrightarrow> keeps var h \<Longrightarrow> keeps var (GetJSONBody h)"
proof -
  assume f: "frame var" and k: "keeps var h"
  have "var (snd (GetJSONBody h r s)) = var s" for r s
  proof -
    have next_h: "var (snd (and_then (Env_set k' v s) (h r))) = var s" for k' v
      using k by (rule_tac and_then_frame) (simp_all add: Env_set_frame f keeps_def)
    show ?thesis
      by (simp add: GetJSONBody_def Let_def ErrorString_frame [OF f] next_h
          split: sum.splits decode_result.splits)
  qed
  then show ?thesis by (simp add: keeps_def)
qed

lemma keeps_Recoverer: "frame var \<Longrightarrow> keeps var h \<Longrightarrow> keeps var (Recoverer stack h)"
proof -
  assume f: "frame var" and k: "keeps var h"
  have "var (snd (Recoverer stack h r s)) = var s" for r s
  proof (cases "h r s")
    case (Pair out s1)
    with k have s1: "var s1 = var s" by (metis keeps_def snd_conv)
    have rec: "var (snd (and_then (Env_set ''stack'' v s1) (Errorf 500 ''panic: %v'' [err]))) = var s1"
      for v err
      by (rule and_then_frame) (simp_all add: Env_set_frame ErrorString_frame Errorf_def f)
    show ?thesis
      using Pair s1 rec by (cases out) (simp_all add: Recoverer_def Let_def)
  qed
  then show ?thesis by (simp add: keeps_def)
qed

lemma keeps_Logger15: "frame var \<Longrightarrow> keeps var h \<Longrightarrow> keeps var (Logger15 logger' elapsed h)"
proof -
  assume f: "frame var" and k: "keeps var h"
  have "var (snd (Logger15 logger' elapsed h r s)) = var s" for r s
  proof (cases "h r (s\<lparr>rw := []\<rparr>)")
    case (Pair out s1)
    with k have "var s1 = var (s\<lparr>rw := []\<rparr>)"
      by (metis keeps_def snd_conv)
    with f have s1: "var s1 = var s" by (simp add: frame_def)
    from f have upd: "var (s1\<lparr>rw := w\<rparr>) = var s1" "var (s1\<lparr>rw := w, logs := l\<rparr>) = var s1" for w l
      by (simp_all add: frame_def)
    show ?thesis
      using Pair s1 upd
      by (cases out) (simp_all add: Logger15_def WrapWriter_def Let_def emit_def split: sum.splits)
  qed
  then show ?thesis by (simp add: keeps_def)
qed

lemma keeps_RequestID_reqPrefix: "keeps reqPrefix h \<Longrightarrow> keeps reqPrefix (RequestID h)"
  unfolding keeps_def RequestID_def next_id_def Env_set_def
  by (auto simp: Let_def split: option.splits)

lemma keeps_reqID_writing_handler: "keeps reqID writing_handler"
  by (simp add: keeps_def writing_handler_def)

lemma keeps_reqPrefix_writing_handler: "keeps reqPrefix writing_handler"
  by (simp add: keeps_def writing_handler_def)

lemma proxy_http_Error: "proxy False (http_Error msg code) = http_Error msg code"
  by (simp add: http_Error_def)

lemma Status_append:
  "Status (cs @ ds) = (if wroteHeader cs then Status cs else Status ds)"
  by (induction cs rule: wroteHeader.induct) simp_all

lemma Status_http_Error: "Status (http_Error msg code) = code"
  by (simp add: http_Error_def)

subsection \<open>ErrorString\<close>

text \<open>
  C8, as the code has it, for a code from 500 on. Two calls that differ in the
  detail only leave the same calls on the response writer, whatever the context.
  \<^verbatim>\<open>ErrorString\<close> first assigns \<^verbatim>\<open>c.Env["err"]\<close>, so the rest needs an allocated
  \<^verbatim>\<open>c.Env\<close>: then the call returns; what it writes is \<^verbatim>\<open>http.Error\<close> of the generic
  message with the request id and of the code; \<^verbatim>\<open>c.Env["err"]\<close> is the detail; the
  request id is untouched.
\<close>

theorem ErrorString_internal:
  "500 \<le> code \<Longrightarrow>
   rw (snd (ErrorString code str' s)) = rw (snd (ErrorString code str s)) \<and>
   (Env s = Some e \<longrightarrow>
      fst (ErrorString code str s) = Returned \<and>
      rw (snd (ErrorString code str s)) =
        rw s @ http_Error (''Internal Error (request ID: '' @ GetReqID s @ '')'') code \<and>
      Env_get (snd (ErrorString code str s)) ''err'' = Some (VString str) \<and>
      GetReqID (snd (ErrorString code str s)) = GetReqID s)"
  by (cases "Env s")
    (simp_all add: ErrorString_Some ErrorString_None Env_get_def GetReqID_def RequestIDKey_def)

theorem ErrorString_internal_witness:
  "(500::int) \<le> 503 \<and> Env empty_Env_state = Some Map.empty \<and>
   rw (snd (ErrorString 503 ''other'' empty_Env_state)) =
     rw (snd (ErrorString 503 ''disk full'' empty_Env_state)) \<and>
   fst (ErrorString 503 ''disk full'' empty_Env_state) = Returned \<and>
   rw (snd (ErrorString 503 ''disk full'' empty_Env_state)) =
     http_Error ''Internal Error (request ID: )'' 503 \<and>
   Env_get (snd (ErrorString 503 ''disk full'' empty_Env_state)) ''err'' =
     Some (VString ''disk full'')"
  using ErrorString_internal [of 503 "''other''" empty_Env_state "''disk full''" Map.empty]
  by (simp add: empty_Env_state_def GetReqID_def Env_get_def)

text \<open>
  C8 as stated fails on a nil \<^verbatim>\<open>c.Env\<close> (the context goji hands out when
  \<^verbatim>\<open>EnvInit\<close> is not in the stack): the assignment panics and nothing is written.
\<close>

theorem ErrorString_nil_Env_counterexample:
  "ErrorString 500 ''disk full'' nil_Env_state = (Panicked nil_map_panic, nil_Env_state)"
  by (simp add: ErrorString_None nil_Env_state_def)


subsection \<open>EnvAdd\<close>

text \<open>
  C9, as the code has it: on an allocated \<^verbatim>\<open>c.Env\<close>, for every map \<^verbatim>\<open>m\<close> (its
  entries in any order, the keys distinct) and every request, \<^verbatim>\<open>EnvAdd(m)\<close> runs the
  next handler on the context whose \<^verbatim>\<open>Env\<close> is the old one overwritten by \<^verbatim>\<open>m\<close>:
  every entry of \<^verbatim>\<open>m\<close> is in it, and every key that is not in \<^verbatim>\<open>m\<close> is as before.
  Nothing else of the state changes before the next handler runs.
\<close>

theorem EnvAdd_merges:
  "Env s = Some e \<Longrightarrow> distinct (map fst m) \<Longrightarrow>
   EnvAdd m h r s = h r (s\<lparr>Env := Some (e ++ map_of m)\<rparr>) \<and>
   (\<forall>(k, v) \<in> set m. (e ++ map_of m) k = Some v) \<and>
   (\<forall>k. k \<notin> fst ` set m \<longrightarrow> (e ++ map_of m) k = e k)"
proof (intro conjI)
  assume a: "Env s = Some e" "distinct (map fst m)"
  show "EnvAdd m h r s = h r (s\<lparr>Env := Some (e ++ map_of m)\<rparr>)"
    using a by (simp add: EnvAdd_def EnvAdd_range_Some)
  show "\<forall>(k, v) \<in> set m. (e ++ map_of m) k = Some v"
    using a(2) by (auto simp: map_add_def)
  show "\<forall>k. k \<notin> fst ` set m \<longrightarrow> (e ++ map_of m) k = e k"
    by (simp add: map_add_dom_app_simps dom_map_of_conv_image_fst)
qed

theorem EnvAdd_merges_witness:
  "EnvAdd [(''a'', VInt 1), (''b'', VString ''x'')] writing_handler plain_request
     (empty_Env_state\<lparr>Env := Some [''c'' \<mapsto> VNil, ''a'' \<mapsto> VNil]\<rparr>) =
   (Returned,
    empty_Env_state\<lparr>Env := Some ([''c'' \<mapsto> VNil, ''a'' \<mapsto> VNil] ++ map_of [(''a'', VInt 1), (''b'', VString ''x'')]),
                    rw := [Write ''13 characters'']\<rparr>) \<and>
   ([''c'' \<mapsto> VNil, ''a'' \<mapsto> VNil] ++ map_of [(''a'', VInt 1), (''b'', VString ''x'')]) ''a'' = Some (VInt 1) \<and>
   ([''c'' \<mapsto> VNil, ''a'' \<mapsto> VNil] ++ map_of [(''a'', VInt 1), (''b'', VString ''x'')]) ''c'' = Some VNil"
  using EnvAdd_merges [of "empty_Env_state\<lparr>Env := Some [''c'' \<mapsto> VNil, ''a'' \<mapsto> VNil]\<rparr>" "[''c'' \<mapsto> VNil, ''a'' \<mapsto> VNil]"
      "[(''a'', VInt 1), (''b'', VString ''x'')]" writing_handler plain_request]
  by (simp add: empty_Env_state_def writing_handler_def)

text \<open>
  C9 as stated fails on a nil \<^verbatim>\<open>c.Env\<close> and a map with an entry: the first
  assignment panics and the next handler does not run.
\<close>

theorem EnvAdd_nil_Env_counterexample:
  "EnvAdd [(''a'', VInt 1)] writing_handler plain_request nil_Env_state =
     (Panicked nil_map_panic, nil_Env_state)"
  by (simp add: EnvAdd_def Env_set_None nil_Env_state_def)

subsection \<open>RequestID\<close>

text \<open>
  C3, as the code has it: on an allocated \<^verbatim>\<open>c.Env\<close>, \<^verbatim>\<open>RequestID\<close> runs the next
  handler on the context with the request id stored under
  \<^verbatim>\<open>middleware.RequestIDKey\<close>: the value of the header \<^verbatim>\<open>X-Request-Id\<close> when it is
  not empty, and otherwise an id made from the counter after one is added to it
  (the prefix, a hyphen and the counter in the newest revision, the counter alone in
  the revision of src/middleware.go).
\<close>

theorem RequestID_stores_id:
  "Env s = Some e \<Longrightarrow>
   RequestID h r s =
     (if Header_Get r RequestIDHeader \<noteq> []
      then h r (s\<lparr>Env := Some (e(RequestIDKey \<mapsto> VString (Header_Get r RequestIDHeader)))\<rparr>)
      else h r (s\<lparr>reqID := reqID s + 1,
                  Env := Some (e(RequestIDKey \<mapsto>
                    VString (reqPrefix s @ ''-'' @ Itoa (sint (reqID s + 1)))))\<rparr>)) \<and>
   RequestID_rev0 h r s =
     (if Header_Get r RequestIDHeader \<noteq> []
      then h r (s\<lparr>Env := Some (e(RequestIDKey \<mapsto> VString (Header_Get r RequestIDHeader)))\<rparr>)
      else h r (s\<lparr>reqID := reqID s + 1,
                  Env := Some (e(RequestIDKey \<mapsto> VString (Itoa (sint (reqID s + 1)))))\<rparr>))"
  by (simp add: RequestID_def RequestID_rev0_def next_id_def next_id_rev0_def Env_set_Some Let_def)

theorem RequestID_stores_id_witness:
  "Env empty_Env_state = Some Map.empty \<and>
   RequestID writing_handler tagged_request empty_Env_state =
     (Returned, empty_Env_state\<lparr>Env := Some [RequestIDKey \<mapsto> VString ''abc''],
                                 rw := [Write ''13 characters'']\<rparr>) \<and>
   RequestID writing_handler plain_request empty_Env_state =
     (Returned, empty_Env_state\<lparr>reqID := 1, Env := Some [RequestIDKey \<mapsto> VString ''abcdefghij-1''],
                                 rw := [Write ''13 characters'']\<rparr>) \<and>
   RequestID_rev0 writing_handler plain_request empty_Env_state =
     (Returned, empty_Env_state\<lparr>reqID := 1, Env := Some [RequestIDKey \<mapsto> VString ''1''],
                                 rw := [Write ''13 characters'']\<rparr>)"
  using RequestID_stores_id [of empty_Env_state Map.empty writing_handler tagged_request]
    RequestID_stores_id [of empty_Env_state Map.empty writing_handler plain_request]
  by (simp add: empty_Env_state_def writing_handler_def tagged_request_def plain_request_def
      RequestIDHeader_def Itoa_def nat_dec.simps digit_def)

text \<open>
  C3 as stated fails on a nil \<^verbatim>\<open>c.Env\<close>: the assignment panics, nothing is stored
  and the next handler does not run (the counter has been raised before).
\<close>

theorem RequestID_nil_Env_counterexample:
  "RequestID writing_handler plain_request nil_Env_state =
     (Panicked nil_map_panic, nil_Env_state\<lparr>reqID := 1\<rparr>) \<and>
   RequestID_rev0 writing_handler tagged_request nil_Env_state =
     (Panicked nil_map_panic, nil_Env_state)"
  by (simp add: RequestID_def RequestID_rev0_def next_id_def next_id_rev0_def Env_set_None
      nil_Env_state_def plain_request_def tagged_request_def RequestIDHeader_def)

subsection \<open>FormParser\<close>

text \<open>
  C7, as the code has it: when the form does not parse and \<^verbatim>\<open>c.Env\<close> is allocated,
  \<^verbatim>\<open>FormParser\<close> writes \<^verbatim>\<open>http.Error\<close> of the parse error's message with status 400,
  stores the message in \<^verbatim>\<open>c.Env["err"]\<close> and returns without the next handler (the
  result does not mention it), and \<^verbatim>\<open>Logger15\<close> around it emits one record, at
  level Warn, whose context ends with \<^verbatim>\<open>err\<close> and the message; when the form
  parses, \<^verbatim>\<open>FormParser\<close> is the next handler and writes nothing of its own.
\<close>

theorem FormParser_bad_request:
  "(ParseForm r = Some err \<and> Env s = Some e \<longrightarrow>
      FormParser h r s =
        (Returned, s\<lparr>Env := Some (e(''err'' \<mapsto> VString err)),
                      rw := rw s @ http_Error err StatusBadRequest\<rparr>) \<and>
      (\<exists>ctx. Logger15 logger' elapsed (FormParser h) r s =
        (Returned, s\<lparr>Env := Some (e(''err'' \<mapsto> VString err)),
                      rw := rw s @ http_Error err StatusBadRequest,
                      logs := logs s @
                        [\<lparr>Lgr = logger', Lvl = LvlWarn, Msg = URL_Path r,
                          Ctx = ctx @ [VString ''err'', VString err]\<rparr>]\<rparr>))) \<and>
   (ParseForm r = None \<longrightarrow> FormParser h r s = h r s)"
proof (intro conjI impI)
  assume "ParseForm r = None"
  then show "FormParser h r s = h r s" by (simp add: FormParser_def)
next
  assume a: "ParseForm r = Some err \<and> Env s = Some e"
  then show "FormParser h r s =
        (Returned, s\<lparr>Env := Some (e(''err'' \<mapsto> VString err)),
                      rw := rw s @ http_Error err StatusBadRequest\<rparr>)"
    by (simp add: FormParser_def ErrorString_Some StatusBadRequest_def)
next
  assume a: "ParseForm r = Some err \<and> Env s = Some e"
  let ?s1 = "s\<lparr>Env := Some (e(''err'' \<mapsto> VString err)), rw := http_Error err StatusBadRequest\<rparr>"
  have run: "FormParser h r (s\<lparr>rw := []\<rparr>) = (Returned, ?s1)"
    using a by (simp add: FormParser_def ErrorString_Some StatusBadRequest_def)
  have wrap: "WrapWriter (FormParser h) r s =
      (Returned, 400, s\<lparr>Env := Some (e(''err'' \<mapsto> VString err)),
                         rw := rw s @ http_Error err StatusBadRequest\<rparr>)"
    by (simp add: WrapWriter_def run proxy_http_Error Status_http_Error StatusBadRequest_def)
  show "\<exists>ctx. Logger15 logger' elapsed (FormParser h) r s =
        (Returned, s\<lparr>Env := Some (e(''err'' \<mapsto> VString err)),
                      rw := rw s @ http_Error err StatusBadRequest,
                      logs := logs s @
                        [\<lparr>Lgr = logger', Lvl = LvlWarn, Msg = URL_Path r,
                          Ctx = ctx @ [VString ''err'', VString err]\<rparr>]\<rparr>)"
    by (rule exI [of _ "request_ctx r s @ [VString ''time'', VString elapsed, VString ''status'', VString (Itoa 400)]"])
      (simp add: Logger15_def wrap Let_def response_ctx_def Env_get_def emit_def)
qed

theorem FormParser_bad_request_witness:
  "ParseForm bad_form_request = Some ''invalid URL escape'' \<and>
   Env empty_Env_state = Some Map.empty \<and>
   FormParser writing_handler bad_form_request empty_Env_state =
     (Returned, empty_Env_state\<lparr>Env := Some [''err'' \<mapsto> VString ''invalid URL escape''],
                                 rw := http_Error ''invalid URL escape'' 400\<rparr>) \<and>
   (\<exists>ctx. Logger15 (Logger 1) ''12us'' (FormParser writing_handler) bad_form_request
            empty_Env_state =
     (Returned, empty_Env_state\<lparr>Env := Some [''err'' \<mapsto> VString ''invalid URL escape''],
                                 rw := http_Error ''invalid URL escape'' 400,
                                 logs := [\<lparr>Lgr = Logger 1, Lvl = LvlWarn, Msg = ''/'',
                                           Ctx = ctx @ [VString ''err'', VString ''invalid URL escape'']\<rparr>]\<rparr>)) \<and>
   ParseForm plain_request = None \<and>
   FormParser writing_handler plain_request empty_Env_state =
     (Returned, empty_Env_state\<lparr>rw := [Write ''13 characters'']\<rparr>)"
  using FormParser_bad_request [of bad_form_request "''invalid URL escape''" empty_Env_state
      Map.empty writing_handler "Logger 1" "''12us''"]
    FormParser_bad_request [of plain_request "''x''" empty_Env_state Map.empty writing_handler]
  by (simp add: empty_Env_state_def bad_form_request_def plain_request_def writing_handler_def
      StatusBadRequest_def)

text \<open>
  C7 as stated fails on a nil \<^verbatim>\<open>c.Env\<close>: \<^verbatim>\<open>ErrorString\<close> panics on its first
  assignment, before it writes the response.
\<close>

theorem FormParser_nil_Env_counterexample:
  "FormParser writing_handler bad_form_request nil_Env_state =
     (Panicked nil_map_panic, nil_Env_state)"
  by (simp add: FormParser_def ErrorString_None nil_Env_state_def bad_form_request_def plain_request_def)

subsection \<open>Recoverer\<close>

text \<open>
  C1, as the code has it: when the wrapped handler panics with a value that
  \<^verbatim>\<open>recover()\<close> gives as non-nil and \<^verbatim>\<open>c.Env\<close> is allocated, \<^verbatim>\<open>Recoverer\<close> returns
  normally (the panic does not leave it), stores the stack and the message
  \<^verbatim>\<open>panic: <value>\<close> in \<^verbatim>\<open>c.Env\<close>, and calls, through \<^verbatim>\<open>Errorf\<close>, \<^verbatim>\<open>http.Error\<close> with
  the generic message and the status 500 on the response writer, after the calls
  the handler made. When no status line had been sent before the panic, the
  response has the status 500. The newest revision needs a stack dump of at least
  three lines for its \<^verbatim>\<open>lines[3:]\<close>; the revision of src/middleware.go does not.
\<close>

theorem Recoverer_catches:
  "h r s = (Panicked err, s1) \<Longrightarrow> err \<noteq> PNil \<Longrightarrow> Env s1 = Some e \<Longrightarrow>
   (3 \<le> length (Split stack newline) \<longrightarrow>
      Recoverer stack h r s =
        (Returned,
         s1\<lparr>Env := Some (e(''stack'' \<mapsto> VStrings (drop 3 (Split stack newline)),
                            ''err'' \<mapsto> VString (''panic: '' @ fmt_v err))),
            rw := rw s1 @ http_Error (''Internal Error (request ID: '' @ GetReqID s1 @ '')'') 500\<rparr>) \<and>
      (\<not> wroteHeader (rw s1) \<longrightarrow> Status (rw (snd (Recoverer stack h r s))) = 500)) \<and>
   Recoverer_rev0 stack h r s =
     (Returned,
      s1\<lparr>Env := Some (e(''stack'' \<mapsto> VString (Replace stack newline '' || ''),
                         ''err'' \<mapsto> VString (''panic: '' @ fmt_v err))),
         rw := rw s1 @ http_Error (''Internal Error (request ID: '' @ GetReqID s1 @ '')'') 500\<rparr>) \<and>
   (\<not> wroteHeader (rw s1) \<longrightarrow> Status (rw (snd (Recoverer_rev0 stack h r s))) = 500)"
  by (simp add: Recoverer_def Recoverer_rev0_def Env_set_Some Errorf_def ErrorString_Some
      GetReqID_upd RequestIDKey_def Let_def Status_append Status_http_Error)

theorem Recoverer_catches_witness:
  "panicking_handler plain_request empty_Env_state = (Panicked (PString ''boom''), empty_Env_state) \<and>
   PString ''boom'' \<noteq> PNil \<and> Env empty_Env_state = Some Map.empty \<and>
   3 \<le> length (Split three_line_stack newline) \<and> \<not> wroteHeader (rw empty_Env_state) \<and>
   Recoverer three_line_stack panicking_handler plain_request empty_Env_state =
     (Returned,
      empty_Env_state\<lparr>Env := Some [''stack'' \<mapsto> VStrings (drop 3 (Split three_line_stack newline)),
                                    ''err'' \<mapsto> VString ''panic: boom''],
                      rw := http_Error ''Internal Error (request ID: )'' 500\<rparr>) \<and>
   Status (rw (snd (Recoverer three_line_stack panicking_handler plain_request empty_Env_state))) = 500 \<and>
   Recoverer_rev0 three_line_stack panicking_handler plain_request empty_Env_state =
     (Returned,
      empty_Env_state\<lparr>Env := Some [''stack'' \<mapsto> VString (Replace three_line_stack newline '' || ''),
                                    ''err'' \<mapsto> VString ''panic: boom''],
                      rw := http_Error ''Internal Error (request ID: )'' 500\<rparr>) \<and>
   Status (rw (snd (Recoverer_rev0 three_line_stack panicking_handler plain_request empty_Env_state))) = 500"
proof -
  have run: "panicking_handler plain_request empty_Env_state = (Panicked (PString ''boom''), empty_Env_state)"
    by (simp add: panicking_handler_def)
  have len: "3 \<le> length (Split three_line_stack newline)"
    by (simp add: three_line_stack_def newline_def tab_def)
  have id: "GetReqID empty_Env_state = []"
    by (simp add: GetReqID_def Env_get_def empty_Env_state_def)
  have env: "Env empty_Env_state = Some Map.empty"
    by (simp add: empty_Env_state_def)
  have rw: "rw empty_Env_state = []"
    by (simp add: empty_Env_state_def)
  show ?thesis
    using Recoverer_catches [where h = panicking_handler and r = plain_request
        and s = empty_Env_state and err = "PString ''boom''" and ?s1.0 = empty_Env_state
        and e = Map.empty and stack = three_line_stack] run len id env rw
    by (simp add: Status_http_Error)
qed

text \<open>
  C1 as stated fails. A handler that has written a part of its response before it
  panics has sent the status line with 200: the \<^verbatim>\<open>WriteHeader(500)\<close> of
  \<^verbatim>\<open>http.Error\<close> is ignored and the response keeps the status 200. And on a nil
  \<^verbatim>\<open>c.Env\<close> the deferred function panics on \<^verbatim>\<open>c.Env["stack"] = ...\<close>: that panic
  leaves the middleware, and nothing is written.
\<close>

theorem Recoverer_counterexample:
  "Status (rw (snd (Recoverer three_line_stack writing_panicking_handler plain_request
      empty_Env_state))) = 200 \<and>
   Status (rw (snd (Recoverer_rev0 three_line_stack writing_panicking_handler plain_request
      empty_Env_state))) = 200 \<and>
   Recoverer three_line_stack panicking_handler plain_request nil_Env_state =
     (Panicked nil_map_panic, nil_Env_state) \<and>
   Recoverer_rev0 three_line_stack panicking_handler plain_request nil_Env_state =
     (Panicked nil_map_panic, nil_Env_state)"
  by (simp add: Recoverer_def Recoverer_rev0_def panicking_handler_def writing_panicking_handler_def
      Env_set_None Env_set_Some Errorf_def ErrorString_Some Let_def
      nil_Env_state_def empty_Env_state_def three_line_stack_def newline_def tab_def)

subsection \<open>Logger15\<close>

text \<open>
  C2, as the code has it in the newest revision: when the wrapped handler returns
  (no panic) and the status is below 500 or \<^verbatim>\<open>c.Env["stack"]\<close> renders, the
  middleware of \<^verbatim>\<open>Logger15(logger)\<close> returns and adds exactly one record to the
  records the handler left: its logger is the argument, its message the path, and
  its level is Crit for a status from 500 on, Warn for a status from 400 to 499 and
  Info otherwise. The calls of the handler reach the response writer through the
  proxy.
\<close>

theorem Logger15_one_record:
  "h r (s\<lparr>rw := []\<rparr>) = (Returned, s1) \<Longrightarrow>
   Status (rw s1) < 500 \<or> stack_renders (Env_get s1 ''stack'') \<Longrightarrow>
   \<exists>ctx. Logger15 logger' elapsed h r s =
     (Returned,
      s1\<lparr>rw := rw s @ proxy False (rw s1),
         logs := logs s1 @
           [\<lparr>Lgr = logger',
             Lvl = (if Status (rw s1) \<ge> 500 then LvlCrit
                    else if Status (rw s1) \<ge> 400 then LvlWarn else LvlInfo),
             Msg = URL_Path r, Ctx = ctx\<rparr>]\<rparr>)"
proof -
  assume run: "h r (s\<lparr>rw := []\<rparr>) = (Returned, s1)"
    and ok: "Status (rw s1) < 500 \<or> stack_renders (Env_get s1 ''stack'')"
  define s2 where "s2 = s1\<lparr>rw := rw s @ proxy False (rw s1)\<rparr>"
  define ctx5 where "ctx5 = response_ctx (request_ctx r s) elapsed (Status (rw s1)) s2"
  have env: "Env_get s2 k = Env_get s1 k" for k
    by (simp add: Env_get_def s2_def)
  have wrap: "WrapWriter h r s = (Returned, Status (rw s1), s2)"
    using run by (simp add: WrapWriter_def s2_def)
  show ?thesis
  proof (cases "Status (rw s1) \<ge> 500")
    case False
    then have "Logger15 logger' elapsed h r s =
      (Returned, emit logger' (if Status (rw s1) \<ge> 400 then LvlWarn else LvlInfo) (URL_Path r) ctx5 s2)"
      by (simp add: Logger15_def wrap Let_def ctx5_def)
    with False show ?thesis
      by (auto simp: emit_def s2_def)
  next
    case True
    with ok have "stack_renders (Env_get s1 ''stack'')" by simp
    then obtain ctx6 where "stack_ctx (Env_get s2 ''stack'') ctx5 = Inr ctx6"
      using stack_ctx_renders env by metis
    with True have "Logger15 logger' elapsed h r s =
      (Returned, emit logger' LvlCrit (URL_Path r) ctx6 s2)"
      by (simp add: Logger15_def wrap Let_def ctx5_def)
    with True show ?thesis
      by (auto simp: emit_def s2_def)
  qed
qed

theorem Logger15_one_record_witness:
  "(writing_handler plain_request (empty_Env_state\<lparr>rw := []\<rparr>) =
     (Returned, empty_Env_state\<lparr>rw := [Write ''13 characters'']\<rparr>) \<and>
   Status [Write ''13 characters''] < 500 \<and>
   (\<exists>ctx. Logger15 (Logger 1) ''12us'' writing_handler plain_request empty_Env_state =
     (Returned,
      empty_Env_state\<lparr>rw := [WriteHeader 200, Write ''13 characters''],
         logs := [\<lparr>Lgr = Logger 1, Lvl = LvlInfo, Msg = ''/'', Ctx = ctx\<rparr>]\<rparr>))) \<and>
   (Recoverer three_line_stack panicking_handler plain_request (empty_Env_state\<lparr>rw := []\<rparr>) =
     (Returned,
      empty_Env_state\<lparr>Env := Some [''stack'' \<mapsto> VStrings (drop 3 (Split three_line_stack newline)),
                                    ''err'' \<mapsto> VString ''panic: boom''],
                      rw := http_Error ''Internal Error (request ID: )'' 500\<rparr>) \<and>
   stack_renders (Some (VStrings (drop 3 (Split three_line_stack newline)))) \<and>
   (\<exists>ctx. Logger15 (Logger 1) ''12us'' (Recoverer three_line_stack panicking_handler)
            plain_request empty_Env_state =
     (Returned,
      empty_Env_state\<lparr>Env := Some [''stack'' \<mapsto> VStrings (drop 3 (Split three_line_stack newline)),
                                    ''err'' \<mapsto> VString ''panic: boom''],
         rw := http_Error ''Internal Error (request ID: )'' 500,
         logs := [\<lparr>Lgr = Logger 1, Lvl = LvlCrit, Msg = ''/'', Ctx = ctx\<rparr>]\<rparr>)))"
proof -
  have run1: "writing_handler plain_request (empty_Env_state\<lparr>rw := []\<rparr>) =
     (Returned, empty_Env_state\<lparr>rw := [Write ''13 characters'']\<rparr>)"
    by (simp add: writing_handler_def empty_Env_state_def)
  have st1: "Status (rw (empty_Env_state\<lparr>rw := [Write ''13 characters'']\<rparr>)) < 500 \<or>
      stack_renders (Env_get (empty_Env_state\<lparr>rw := [Write ''13 characters'']\<rparr>) ''stack'')"
    by simp
  have info: "writing_handler plain_request (empty_Env_state\<lparr>rw := []\<rparr>) =
        (Returned, empty_Env_state\<lparr>rw := [Write ''13 characters'']\<rparr>) \<and>
      Status [Write ''13 characters''] < 500 \<and>
      (\<exists>ctx. Logger15 (Logger 1) ''12us'' writing_handler plain_request empty_Env_state =
        (Returned,
         empty_Env_state\<lparr>rw := [WriteHeader 200, Write ''13 characters''],
            logs := [\<lparr>Lgr = Logger 1, Lvl = LvlInfo, Msg = ''/'', Ctx = ctx\<rparr>]\<rparr>))"
    using Logger15_one_record [of writing_handler plain_request empty_Env_state
        "empty_Env_state\<lparr>rw := [Write ''13 characters'']\<rparr>" "Logger 1" "''12us''"] run1 st1
    by (simp add: empty_Env_state_def plain_request_def)
  let ?s1 = "empty_Env_state\<lparr>Env := Some [''stack'' \<mapsto> VStrings (drop 3 (Split three_line_stack newline)),
                                    ''err'' \<mapsto> VString ''panic: boom''],
                      rw := http_Error ''Internal Error (request ID: )'' 500\<rparr>"
  have len: "\<not> length (Split three_line_stack newline) < 3"
    by (simp add: three_line_stack_def newline_def tab_def)
  have run: "Recoverer three_line_stack panicking_handler plain_request (empty_Env_state\<lparr>rw := []\<rparr>) =
      (Returned, ?s1)"
    by (simp add: Recoverer_def panicking_handler_def Let_def len Env_set_Some Errorf_def
        ErrorString_Some empty_Env_state_def GetReqID_def Env_get_def RequestIDKey_def)
  have st: "Status (rw ?s1) < 500 \<or> stack_renders (Env_get ?s1 ''stack'')"
    using three_line_stack_renders by (simp add: Env_get_def)
  have px: "proxy False (http_Error ''Internal Error (request ID: )'' 500) =
      http_Error ''Internal Error (request ID: )'' 500"
    by (simp add: http_Error_def)
  have crit: "Recoverer three_line_stack panicking_handler plain_request (empty_Env_state\<lparr>rw := []\<rparr>) =
        (Returned,
         empty_Env_state\<lparr>Env := Some [''stack'' \<mapsto> VStrings (drop 3 (Split three_line_stack newline)),
                                       ''err'' \<mapsto> VString ''panic: boom''],
                         rw := http_Error ''Internal Error (request ID: )'' 500\<rparr>) \<and>
      stack_renders (Some (VStrings (drop 3 (Split three_line_stack newline)))) \<and>
      (\<exists>ctx. Logger15 (Logger 1) ''12us'' (Recoverer three_line_stack panicking_handler)
               plain_request empty_Env_state =
        (Returned,
         empty_Env_state\<lparr>Env := Some [''stack'' \<mapsto> VStrings (drop 3 (Split three_line_stack newline)),
                                       ''err'' \<mapsto> VString ''panic: boom''],
            rw := http_Error ''Internal Error (request ID: )'' 500,
            logs := [\<lparr>Lgr = Logger 1, Lvl = LvlCrit, Msg = ''/'', Ctx = ctx\<rparr>]\<rparr>))"
    using Logger15_one_record [of "Recoverer three_line_stack panicking_handler" plain_request
        empty_Env_state ?s1 "Logger 1" "''12us''"] run st three_line_stack_renders px
    by (simp add: empty_Env_state_def plain_request_def http_Error_def)
  from info crit show ?thesis by (rule conjI)
qed

text \<open>
  C2 as stated fails when the wrapped handler panics: \<^verbatim>\<open>Logger15\<close> has no
  \<^verbatim>\<open>recover\<close>, the panic passes through it and no record is emitted.
\<close>

theorem Logger15_panic_counterexample:
  "Logger15 (Logger 1) ''12us'' panicking_handler plain_request empty_Env_state =
     (Panicked (PString ''boom''), empty_Env_state) \<and>
   logs empty_Env_state = []"
  by (simp add: Logger15_def WrapWriter_def panicking_handler_def empty_Env_state_def Let_def)

text \<open>
  The revision of src/middleware.go logs to log15's root logger, whatever logger
  the caller gives.
\<close>

lemma Logger15_rev0_root:
  "h r (s\<lparr>rw := []\<rparr>) = (Returned, s1) \<Longrightarrow>
   \<exists>l ctx. logs (snd (Logger15_rev0 logger' elapsed h r s)) =
     logs s1 @ [\<lparr>Lgr = Root, Lvl = l, Msg = URL_Path r, Ctx = ctx\<rparr>]"
  by (simp add: Logger15_rev0_def WrapWriter_def Let_def emit_def)

subsection \<open>GetJSONBody\<close>

text \<open>
  C6, as the code has it, on an allocated \<^verbatim>\<open>c.Env\<close>. When the decoder reports EOF,
  the content-length header is absent or parses to zero, and the content-type
  header is absent or \<^verbatim>\<open>application/json\<close>, \<^verbatim>\<open>GetJSONBody\<close> writes nothing, stores
  the nil map in \<^verbatim>\<open>c.Env["json"]\<close> and runs the next handler. When the body does
  not decode, or the decoder reports EOF and the content-length header is present
  and not zero, it writes \<^verbatim>\<open>http.Error\<close> with status 400 and returns without the
  next handler.
\<close>

theorem GetJSONBody_absent_or_bad:
  "Env s = Some e \<Longrightarrow>
   (Body_Decode r = DecodeEOF \<and>
    (Header_Get r ''content-length'' = [] \<or> Atoi (Header_Get r ''content-length'') = Inr 0) \<and>
    (Header_Get r ''content-type'' = [] \<or> Header_Get r ''content-type'' = ''application/json'')
    \<longrightarrow> GetJSONBody h r s = h r (s\<lparr>Env := Some (e(''json'' \<mapsto> VObject None))\<rparr>)) \<and>
   ((\<exists>msg. Body_Decode r = DecodeError msg) \<or>
    (Body_Decode r = DecodeEOF \<and> Header_Get r ''content-length'' \<noteq> [] \<and>
     Atoi (Header_Get r ''content-length'') \<noteq> Inr 0)
    \<longrightarrow> (\<exists>str. GetJSONBody h r s =
          (Returned, s\<lparr>Env := Some (e(''err'' \<mapsto> VString str)),
                        rw := rw s @ http_Error str 400\<rparr>)))"
  by (auto simp: GetJSONBody_def Let_def ErrorString_Some Env_set_Some split: sum.splits)

theorem GetJSONBody_absent_or_bad_witness:
  "Env empty_Env_state = Some Map.empty \<and>
   Body_Decode zero_length_request = DecodeEOF \<and>
   Atoi (Header_Get zero_length_request ''content-length'') = Inr 0 \<and>
   Header_Get zero_length_request ''content-type'' = [] \<and>
   GetJSONBody writing_handler zero_length_request empty_Env_state =
     (Returned, empty_Env_state\<lparr>Env := Some [''json'' \<mapsto> VObject None],
                                 rw := [Write ''13 characters'']\<rparr>) \<and>
   Body_Decode bad_json_request = DecodeError ''unexpected end of JSON input'' \<and>
   (\<exists>str. GetJSONBody writing_handler bad_json_request empty_Env_state =
      (Returned, empty_Env_state\<lparr>Env := Some [''err'' \<mapsto> VString str],
                                  rw := http_Error str 400\<rparr>)) \<and>
   Body_Decode short_body_request = DecodeEOF \<and>
   Atoi (Header_Get short_body_request ''content-length'') = Inr 5 \<and>
   (\<exists>str. GetJSONBody writing_handler short_body_request empty_Env_state =
      (Returned, empty_Env_state\<lparr>Env := Some [''err'' \<mapsto> VString str],
                                  rw := http_Error str 400\<rparr>))"
  using GetJSONBody_absent_or_bad [of empty_Env_state Map.empty zero_length_request writing_handler]
    GetJSONBody_absent_or_bad [of empty_Env_state Map.empty bad_json_request writing_handler]
    GetJSONBody_absent_or_bad [of empty_Env_state Map.empty short_body_request writing_handler]
  by (simp add: empty_Env_state_def zero_length_request_def bad_json_request_def
      short_body_request_def plain_request_def writing_handler_def Atoi_0 Atoi_5)

text \<open>
  C6 as stated fails for a request with no body and no content-length whose
  content-type is not \<^verbatim>\<open>application/json\<close>: it gets a 400 and the next handler
  does not run. It also fails on a nil \<^verbatim>\<open>c.Env\<close>, where the assignment to
  \<^verbatim>\<open>c.Env["json"]\<close> panics.
\<close>

theorem GetJSONBody_counterexample:
  "Body_Decode text_request = DecodeEOF \<and> Header_Get text_request ''content-length'' = [] \<and>
   GetJSONBody writing_handler text_request empty_Env_state =
     (Returned,
      empty_Env_state\<lparr>Env := Some [''err'' \<mapsto> VString (''Invalid content-type '' @ [CHR 0x27] @ ''text/plain'' @ [CHR 0x27] @ '', application/json expected'')],
                      rw := http_Error (''Invalid content-type '' @ [CHR 0x27] @ ''text/plain'' @ [CHR 0x27] @ '', application/json expected'') 400\<rparr>) \<and>
   GetJSONBody writing_handler plain_request nil_Env_state = (Panicked nil_map_panic, nil_Env_state)"
  by (simp add: GetJSONBody_def Let_def ErrorString_Some Env_set_None text_request_def
      plain_request_def empty_Env_state_def nil_Env_state_def)


subsection \<open>The request id counter\<close>

text \<open>The counter and the goroutines of \<^verbatim>\<open>RequestID\<close> under any schedule.\<close>

lemma generated_update:
  "i < length ts \<Longrightarrow> snd (ts ! i) = None \<Longrightarrow>
   generated (ts[i := (as, Some v)]) = Suc (generated ts)"
proof (induction ts arbitrary: i)
  case Nil
  then show ?case by simp
next
  case (Cons t ts)
  show ?case
  proof (cases i)
    case 0
    with Cons.prems show ?thesis by (simp add: generated_def)
  next
    case (Suc k)
    with Cons.prems Cons.IH [of k] show ?thesis by (simp add: generated_def)
  qed
qed

lemma generated_less:
  "i < length ts \<Longrightarrow> snd (ts ! i) = None \<Longrightarrow> generated ts < length ts"
proof (induction ts arbitrary: i)
  case Nil
  then show ?case by simp
next
  case (Cons t ts)
  have le: "length (filter (\<lambda>t. snd t \<noteq> None) ts) \<le> length ts"
    by (rule length_filter_le)
  show ?case
  proof (cases i)
    case 0
    from le have "length (filter (\<lambda>t. snd t \<noteq> None) ts) < Suc (length ts)"
      by (rule le_imp_less_Suc)
    with 0 Cons.prems show ?thesis by (simp add: generated_def)
  next
    case (Suc k)
    with Cons.prems Cons.IH [of k] show ?thesis by (auto simp: generated_def)
  qed
qed

lemma counter_inv_step:
  assumes I: "counter_inv c0 (c, ts)" and bound: "sint c0 + int (length ts) < 2 ^ 63"
    and i: "i < length ts" and pending: "ts ! i = ([AddInt64], None)"
  shows "counter_inv c0 (c + 1, ts[i := ([], Some (c + 1))])" and "sint (c + 1) = sint c + 1"
proof -
  from I have all: "(\<forall>t \<in> set ts. t = ([AddInt64], None) \<or> fst t = []) \<and>
     sint c = sint c0 + int (generated ts) \<and>
     (\<forall>i < length ts. \<forall>v. snd (ts ! i) = Some v \<longrightarrow> sint c0 < sint v \<and> sint v \<le> sint c) \<and>
     (\<forall>i < length ts. \<forall>j < length ts. \<forall>v.
        snd (ts ! i) = Some v \<and> snd (ts ! j) = Some v \<longrightarrow> i = j)"
    unfolding counter_inv_def prod.case .
  from all have c: "sint c = sint c0 + int (generated ts)" by (elim conjE)
  from all have shape: "\<forall>t \<in> set ts. t = ([AddInt64], None) \<or> fst t = []" by (elim conjE)
  from all have range: "\<forall>i < length ts. \<forall>v. snd (ts ! i) = Some v \<longrightarrow> sint c0 < sint v \<and> sint v \<le> sint c"
    by (elim conjE)
  from all have uniq: "\<forall>i < length ts. \<forall>j < length ts. \<forall>v.
        snd (ts ! i) = Some v \<and> snd (ts ! j) = Some v \<longrightarrow> i = j"
    by (elim conjE)
  from i pending have "generated ts < length ts"
    by (intro generated_less [of i]) simp_all
  with c bound have "sint c < 2 ^ 63 - 1" by simp
  then show succ: "sint (c + 1) = sint c + 1" by (rule sint_succ)
  let ?ts = "ts[i := ([], Some (c + 1))]"
  have gen: "generated ?ts = Suc (generated ts)"
    using i pending by (intro generated_update) simp_all
  have shape': "\<forall>t \<in> set ?ts. t = ([AddInt64], None) \<or> fst t = []"
    using shape by (auto dest!: set_update_subset_insert [THEN subsetD])
  have nth: "snd (?ts ! j) = (if j = i then Some (c + 1) else snd (ts ! j))" if "j < length ts" for j
    using that i by (simp add: nth_list_update)
  have range': "\<forall>j < length ?ts. \<forall>v. snd (?ts ! j) = Some v \<longrightarrow> sint c0 < sint v \<and> sint v \<le> sint (c + 1)"
  proof (intro allI impI)
    fix j v
    assume j: "j < length ?ts" and v: "snd (?ts ! j) = Some v"
    show "sint c0 < sint v \<and> sint v \<le> sint (c + 1)"
    proof (cases "j = i")
      case True
      with v nth [of j] j have "v = c + 1" by simp
      with succ c show ?thesis by simp
    next
      case False
      with v nth [of j] j have "snd (ts ! j) = Some v" by simp
      with range j have "sint c0 < sint v \<and> sint v \<le> sint c" by simp
      with succ show ?thesis by simp
    qed
  qed
  have uniq': "\<forall>j < length ?ts. \<forall>k < length ?ts. \<forall>v.
        snd (?ts ! j) = Some v \<and> snd (?ts ! k) = Some v \<longrightarrow> j = k"
  proof (intro allI impI)
    fix j k v
    assume j: "j < length ?ts" and k: "k < length ?ts"
      and v: "snd (?ts ! j) = Some v \<and> snd (?ts ! k) = Some v"
    have old: "snd (ts ! l) = Some w \<Longrightarrow> l < length ts \<Longrightarrow> w \<noteq> c + 1" for l w
    proof
      assume "snd (ts ! l) = Some w" "l < length ts" "w = c + 1"
      with range have "sint (c + 1) \<le> sint c" by auto
      with succ show False by simp
    qed
    show "j = k"
    proof (cases "j = i")
      case ji: True
      show ?thesis
      proof (cases "k = i")
        case True
        with ji show ?thesis by simp
      next
        case False
        with v nth [of k] k have "snd (ts ! k) = Some v" by simp
        moreover from ji v nth [of j] j have "v = c + 1" by simp
        ultimately show ?thesis using old [of k v] k by simp
      qed
    next
      case nji: False
      with v nth [of j] j have vj: "snd (ts ! j) = Some v" by simp
      show ?thesis
      proof (cases "k = i")
        case True
        with v nth [of k] k have "v = c + 1" by simp
        with vj old [of j v] j show ?thesis by simp
      next
        case False
        with v nth [of k] k have "snd (ts ! k) = Some v" by simp
        with vj uniq j k show ?thesis by simp
      qed
    qed
  qed
  show "counter_inv c0 (c + 1, ?ts)"
    using shape' range' uniq' gen succ c by (simp add: counter_inv_def)
qed

lemma counter_inv_interleave:
  "counter_inv c0 (c, ts) \<Longrightarrow> sint c0 + int (length ts) < 2 ^ 63 \<Longrightarrow>
   counter_inv c0 (interleave sched (c, ts)) \<and> sint c \<le> sint (fst (interleave sched (c, ts))) \<and>
   length (snd (interleave sched (c, ts))) = length ts"
proof (induction sched arbitrary: c ts)
  case Nil
  then show ?case by simp
next
  case (Cons i sched)
  show ?case
  proof (cases "i < length ts \<and> fst (ts ! i) \<noteq> []")
    case False
    then have "interleave (i # sched) (c, ts) = interleave sched (c, ts)"
      by (cases "ts ! i") (auto split: list.splits)
    with Cons show ?thesis by simp
  next
    case True
    then have i: "i < length ts" by simp
    from Cons.prems(1) have "\<forall>t \<in> set ts. t = ([AddInt64], None) \<or> fst t = []"
      by (simp add: counter_inv_def)
    with True have pending: "ts ! i = ([AddInt64], None)"
      using nth_mem [of i ts] by auto
    let ?ts = "ts[i := ([], Some (c + 1))]"
    have step: "interleave (i # sched) (c, ts) = interleave sched (c + 1, ?ts)"
      using i pending by simp
    have I': "counter_inv c0 (c + 1, ?ts)" and succ: "sint (c + 1) = sint c + 1"
      using counter_inv_step [OF Cons.prems(1) Cons.prems(2) i pending] by simp_all
    have "sint c0 + int (length ?ts) < 2 ^ 63"
      using Cons.prems(2) by simp
    from Cons.IH [OF I' this] succ show ?thesis
      unfolding step by simp
  qed
qed

lemma counter_inv_start: "counter_inv c (c, goroutines rs)"
  by (auto simp: counter_inv_def goroutines_def reqID_accesses_def generated_def)

lemma interleave_append:
  "interleave (s1 @ s2) x = interleave s2 (interleave s1 x)"
proof (induction s1 arbitrary: x)
  case Nil
  show ?case by (cases x) simp
next
  case (Cons i s1)
  obtain c ts where x: "x = (c, ts)" by (cases x)
  show ?case
    unfolding x by (simp add: Cons split: prod.splits list.splits)
qed

lemma interleave_monotone:
  assumes "sint c + int (length rs) < 2 ^ 63"
  shows "sint (fst (interleave sched (c, goroutines rs)))
     \<le> sint (fst (interleave (sched @ rest) (c, goroutines rs)))"
proof -
  obtain c1 ts1 where x: "interleave sched (c, goroutines rs) = (c1, ts1)"
    by (cases "interleave sched (c, goroutines rs)")
  have len: "length (goroutines rs) = length rs" by (simp add: goroutines_def)
  from counter_inv_interleave [OF counter_inv_start, of c rs sched] assms len x
  have inv1: "counter_inv c (c1, ts1)" and len1: "length ts1 = length rs"
    by simp_all
  from counter_inv_interleave [OF inv1, of rest] assms len1
  have "sint c1 \<le> sint (fst (interleave rest (c1, ts1)))" by simp
  then show ?thesis by (simp add: interleave_append x)
qed

lemma counter_inv_result:
  assumes "sint c + int (length rs) < 2 ^ 63"
    and "interleave sched (c, goroutines rs) = (c', ts')"
  shows "sint c' = sint c + int (generated ts')"
    and "\<forall>i < length rs. \<forall>j < length rs. \<forall>v.
        snd (ts' ! i) = Some v \<and> snd (ts' ! j) = Some v \<longrightarrow> i = j"
    and "\<forall>i < length rs. \<forall>v. snd (ts' ! i) = Some v \<longrightarrow> sint c < sint v \<and> sint v \<le> sint c'"
proof -
  have len: "length (goroutines rs) = length rs" by (simp add: goroutines_def)
  from counter_inv_interleave [OF counter_inv_start, of c rs sched] assms len
  have I': "counter_inv c (c', ts')" and len': "length ts' = length rs" by simp_all
  note all = I' [unfolded counter_inv_def prod.case len']
  from all show "sint c' = sint c + int (generated ts')" by (elim conjE)
  from all show "\<forall>i < length rs. \<forall>j < length rs. \<forall>v.
        snd (ts' ! i) = Some v \<and> snd (ts' ! j) = Some v \<longrightarrow> i = j"
    by (elim conjE)
  from all show "\<forall>i < length rs. \<forall>v. snd (ts' ! i) = Some v \<longrightarrow> sint c < sint v \<and> sint v \<le> sint c'"
    by (elim conjE)
qed

lemma goroutine_alone:
  "interleave [0] (c, goroutines [r]) =
     (if Header_Get r RequestIDHeader = [] then (c + 1, [([], Some (c + 1))]) else (c, [([], None)]))"
  by (simp add: goroutines_def reqID_accesses_def)

lemma racy_duplicates:
  "interleave [0, 1, 0, 1]
     (c, [([LoadInt64, StoreInt64], None), ([LoadInt64, StoreInt64], None)]) =
   (c + 1, [([], Some (c + 1)), ([], Some (c + 1))])"
  by simp

lemma fallback_run_counter: "reqID ((fallback_run ^^ n) s) = reqID s + of_nat n"
proof (induction n)
  case 0
  then show ?case by simp
next
  case (Suc n)
  have "counts (RequestID writing_handler)"
    by (rule keeps_RequestID_counts) (rule keeps_reqID_writing_handler)
  then have "reqID (fallback_run s') = reqID s' + 1" for s'
    by (simp add: counts_def fallback_run_def plain_request_def)
  with Suc show ?case by simp
qed

text \<open>
  C4, as the code has it, for a wrapped handler that keeps \<^verbatim>\<open>reqID\<close> (code outside
  the package cannot name it) and for both revisions of \<^verbatim>\<open>RequestID\<close>. The other
  middlewares (of the newest revision) keep \<^verbatim>\<open>reqID\<close>. \<^verbatim>\<open>RequestID\<close> adds one to it
  when the request has no \<^verbatim>\<open>X-Request-Id\<close> header and leaves it as it is
  otherwise, and that is what its goroutine, run alone, does with its one atomic
  add. For requests served concurrently, from a counter that they cannot take past
  the largest int64, and under every schedule of their goroutines: the counter
  never decreases from one step to the next; it is the counter at the start plus the
  number of ids generated so far; no two goroutines have got the same number; and
  every number is above the counter at the start and not above the counter.
  (An increment by a load and a store, which is not atomic, gives two goroutines
  the same number under the schedule of \<open>racy_duplicates\<close>.)
\<close>

theorem reqID_counter:
  "keeps reqID h \<Longrightarrow> g = RequestID h \<or> g = RequestID_rev0 h \<Longrightarrow>
   keeps reqID (EnvAdd m h) \<and> keeps reqID (Logger15 logger' elapsed h) \<and>
   keeps reqID (Recoverer stack h) \<and> keeps reqID (FormParser h) \<and>
   keeps reqID (GetJSONBody h) \<and>
   reqID (snd (g r s)) = (if Header_Get r RequestIDHeader = [] then reqID s + 1 else reqID s) \<and>
   interleave [0] (reqID s, goroutines [r]) =
     (reqID (snd (g r s)),
      [([], if Header_Get r RequestIDHeader = [] then Some (reqID (snd (g r s))) else None)]) \<and>
   (sint c + int (length rs) < 2 ^ 63 \<longrightarrow>
      (\<forall>n. sint (fst (interleave (take n sched) (c, goroutines rs)))
         \<le> sint (fst (interleave (take (Suc n) sched) (c, goroutines rs)))) \<and>
      sint (fst (interleave sched (c, goroutines rs))) =
        sint c + int (generated (snd (interleave sched (c, goroutines rs)))) \<and>
      (\<forall>i < length rs. \<forall>j < length rs. \<forall>v.
         snd (snd (interleave sched (c, goroutines rs)) ! i) = Some v \<and>
         snd (snd (interleave sched (c, goroutines rs)) ! j) = Some v \<longrightarrow> i = j) \<and>
      (\<forall>i < length rs. \<forall>v.
         snd (snd (interleave sched (c, goroutines rs)) ! i) = Some v \<longrightarrow>
           sint c < sint v \<and> sint v \<le> sint (fst (interleave sched (c, goroutines rs)))))"
proof -
  assume k: "keeps reqID h" and g: "g = RequestID h \<or> g = RequestID_rev0 h"
  from k g have c: "counts g"
    using keeps_RequestID_counts keeps_RequestID_rev0_counts by blast
  then have step: "reqID (snd (g r s)) =
      (if Header_Get r RequestIDHeader = [] then reqID s + 1 else reqID s)"
    by (simp add: counts_def)
  have alone: "interleave [0] (reqID s, goroutines [r]) =
       (reqID (snd (g r s)),
        [([], if Header_Get r RequestIDHeader = [] then Some (reqID (snd (g r s))) else None)])"
    using goroutine_alone [of "reqID s" r] step by (simp del: interleave.simps)
  have others: "keeps reqID (EnvAdd m h) \<and> keeps reqID (Logger15 logger' elapsed h) \<and>
      keeps reqID (Recoverer stack h) \<and> keeps reqID (FormParser h) \<and>
      keeps reqID (GetJSONBody h)"
    using k frame_reqID
    by (intro conjI keeps_EnvAdd keeps_Logger15 keeps_Recoverer keeps_FormParser keeps_GetJSONBody)
  have run: "(\<forall>n. sint (fst (interleave (take n sched) (c, goroutines rs)))
         \<le> sint (fst (interleave (take (Suc n) sched) (c, goroutines rs)))) \<and>
      sint (fst (interleave sched (c, goroutines rs))) =
        sint c + int (generated (snd (interleave sched (c, goroutines rs)))) \<and>
      (\<forall>i < length rs. \<forall>j < length rs. \<forall>v.
         snd (snd (interleave sched (c, goroutines rs)) ! i) = Some v \<and>
         snd (snd (interleave sched (c, goroutines rs)) ! j) = Some v \<longrightarrow> i = j) \<and>
      (\<forall>i < length rs. \<forall>v.
         snd (snd (interleave sched (c, goroutines rs)) ! i) = Some v \<longrightarrow>
           sint c < sint v \<and> sint v \<le> sint (fst (interleave sched (c, goroutines rs))))"
    if bound: "sint c + int (length rs) < 2 ^ 63"
  proof -
    obtain c' ts' where res: "interleave sched (c, goroutines rs) = (c', ts')"
      by (cases "interleave sched (c, goroutines rs)")
    have mono: "sint (fst (interleave (take n sched) (c, goroutines rs)))
         \<le> sint (fst (interleave (take (Suc n) sched) (c, goroutines rs)))" for n
    proof -
      have "take (Suc n) sched = take n sched @ take 1 (drop n sched)"
        using take_add [of n 1 sched] by simp
      then show ?thesis
        using interleave_monotone [OF bound, of "take n sched" "take 1 (drop n sched)"] by simp
    qed
    from counter_inv_result [OF bound res] mono show ?thesis
      unfolding res by simp
  qed
  from others step alone run show ?thesis by (intro conjI) blast+
qed

theorem reqID_counter_witness:
  "keeps reqID writing_handler \<and>
   sint (0 :: 64 word) + int (length [plain_request, tagged_request, plain_request]) < 2 ^ 63 \<and>
   reqID (snd (RequestID writing_handler plain_request empty_Env_state)) = 1 \<and>
   reqID (snd (RequestID writing_handler tagged_request empty_Env_state)) = 0 \<and>
   interleave [2, 0, 1] (0, goroutines [plain_request, tagged_request, plain_request]) =
     (2, [([], Some 2), ([], None), ([], Some 1)]) \<and>
   sint (fst (interleave [2, 0, 1] (0, goroutines [plain_request, tagged_request, plain_request]))) =
     sint (0 :: 64 word) +
     int (generated (snd (interleave [2, 0, 1] (0, goroutines [plain_request, tagged_request, plain_request]))))"
proof -
  have plain: "Header_Get plain_request RequestIDHeader = []"
    and tagged: "Header_Get tagged_request RequestIDHeader \<noteq> []"
    by (simp_all add: plain_request_def tagged_request_def)
  have z: "reqID empty_Env_state = 0"
    by (simp add: empty_Env_state_def)
  have run: "interleave [2, 0, 1] (0, goroutines [plain_request, tagged_request, plain_request]) =
     (2, [([], Some 2), ([], None), ([], Some 1)])"
    by (simp add: goroutines_def reqID_accesses_def plain tagged)
  show ?thesis
    using reqID_counter [OF keeps_reqID_writing_handler disjI1 [OF refl],
        where r = plain_request and s = empty_Env_state and c = 0
          and rs = "[plain_request, tagged_request, plain_request]" and sched = "[2, 0, 1]"]
      reqID_counter [OF keeps_reqID_writing_handler disjI1 [OF refl],
        where r = tagged_request and s = empty_Env_state and c = 0 and rs = "[]" and sched = "[]"]
      plain tagged z keeps_reqID_writing_handler run
    by (simp add: generated_def)
qed

text \<open>
  C4 as stated fails: a request that carries an \<^verbatim>\<open>X-Request-Id\<close> header leaves the
  counter as it is, so the counter is not strictly increasing over every sequence of
  invocations; and the addition wraps around: after \<open>2 ^ 63\<close> requests without the
  header, served one after the other from the start of the process, the counter is
  below where it started.
\<close>

theorem reqID_counter_counterexample:
  "startup [rejected_read, random_read] = Some started_state \<and>
   reqID (snd (RequestID writing_handler tagged_request
      (started_state\<lparr>Env := Some Map.empty\<rparr>))) = reqID started_state \<and>
   sint (reqID ((fallback_run ^^ (2 ^ 63)) started_state)) < sint (reqID started_state)"
proof -
  have st: "startup [rejected_read, random_read] = Some started_state"
    unfolding startup_def init_rejected_read started_state_def by simp
  have tagged: "reqID (snd (RequestID writing_handler tagged_request
      (started_state\<lparr>Env := Some Map.empty\<rparr>))) = reqID started_state"
    by (simp add: RequestID_def next_id_def Env_set_def writing_handler_def
        tagged_request_def plain_request_def started_state_def RequestIDHeader_def Let_def)
  have wrap: "sint (reqID ((fallback_run ^^ (2 ^ 63)) started_state)) < sint (reqID started_state)"
    by (simp add: fallback_run_counter started_state_def)
  from st tagged wrap show ?thesis by simp
qed

subsection \<open>The request id prefix\<close>

text \<open>
  C5, on the newest revision (the one that has \<^verbatim>\<open>reqPrefix\<close>). At the start of
  the process \<^verbatim>\<open>reqPrefix\<close> is what \<^verbatim>\<open>init\<close> computes from the random source: 10
  characters, letters and digits, the first 10 of the first read of 12 bytes whose
  base64 encoding has 10 characters left when \<^verbatim>\<open>+\<close> and \<^verbatim>\<open>/\<close> are dropped. Nothing
  assigns it afterwards: for a wrapped handler that keeps it (code outside the
  package cannot name it), every middleware keeps it, from any state. And for a
  request without an \<^verbatim>\<open>X-Request-Id\<close> header, served in a state with that prefix,
  the id that \<^verbatim>\<open>RequestID\<close> generates is the prefix, a hyphen and the counter after
  the addition; on an allocated \<^verbatim>\<open>c.Env\<close> that id is stored under \<^verbatim>\<open>RequestIDKey\<close>
  for the wrapped handler.
\<close>

theorem reqPrefix_fixed:
  "startup reads = Some s0 \<Longrightarrow> keeps reqPrefix h \<Longrightarrow>
   init reads = Some (reqPrefix s0) \<and> reqID s0 = 0 \<and>
   length (reqPrefix s0) = 10 \<and> set (reqPrefix s0) \<subseteq> set alphanumeric \<and>
   (list_all (\<lambda>bytes. length bytes = 12) (bytes # more_reads) \<longrightarrow>
      init (bytes # more_reads) =
        (let b64' = filter (\<lambda>c. c \<noteq> CHR ''+'' \<and> c \<noteq> CHR ''/'') (EncodeToString bytes)
         in if length b64' < 10 then init more_reads else Some (take 10 b64'))) \<and>
   keeps reqPrefix (RequestID h) \<and> keeps reqPrefix (EnvAdd m h) \<and>
   keeps reqPrefix (Logger15 logger' elapsed h) \<and> keeps reqPrefix (Recoverer stack h) \<and>
   keeps reqPrefix (FormParser h) \<and> keeps reqPrefix (GetJSONBody h) \<and>
   (reqPrefix s = reqPrefix s0 \<and> Header_Get r RequestIDHeader = [] \<longrightarrow>
      fst (next_id r s) = reqPrefix s0 @ ''-'' @ Itoa (sint (reqID s + 1)) \<and>
      reqPrefix (snd (next_id r s)) = reqPrefix s0 \<and>
      (Env s = Some e \<longrightarrow>
         RequestID h r s =
           h r (s\<lparr>reqID := reqID s + 1,
                  Env := Some (e(RequestIDKey \<mapsto>
                    VString (reqPrefix s0 @ ''-'' @ Itoa (sint (reqID s + 1)))))\<rparr>)))"
proof -
  assume st: "startup reads = Some s0" and k: "keeps reqPrefix h"
  from st have i: "init reads = Some (reqPrefix s0)" and z: "reqID s0 = 0"
    by (auto simp: startup_def split: option.splits)
  have len: "length (reqPrefix s0) = 10"
    using i by (rule init_length)
  have chars: "set (reqPrefix s0) \<subseteq> set alphanumeric"
    using i by (rule init_chars)
  have first: "list_all (\<lambda>bytes. length bytes = 12) (bytes # more_reads) \<longrightarrow>
      init (bytes # more_reads) =
        (let b64' = filter (\<lambda>c. c \<noteq> CHR ''+'' \<and> c \<noteq> CHR ''/'') (EncodeToString bytes)
         in if length b64' < 10 then init more_reads else Some (take 10 b64'))"
    using init_first_read by blast
  have kr: "keeps reqPrefix (RequestID h)"
    using k by (rule keeps_RequestID_reqPrefix)
  have others: "keeps reqPrefix (EnvAdd m h) \<and>
      keeps reqPrefix (Logger15 logger' elapsed h) \<and> keeps reqPrefix (Recoverer stack h) \<and>
      keeps reqPrefix (FormParser h) \<and> keeps reqPrefix (GetJSONBody h)"
    using k frame_reqPrefix
    by (intro conjI keeps_EnvAdd keeps_Logger15 keeps_Recoverer keeps_FormParser keeps_GetJSONBody)
  have ids: "reqPrefix s = reqPrefix s0 \<and> Header_Get r RequestIDHeader = [] \<longrightarrow>
      fst (next_id r s) = reqPrefix s0 @ ''-'' @ Itoa (sint (reqID s + 1)) \<and>
      reqPrefix (snd (next_id r s)) = reqPrefix s0 \<and>
      (Env s = Some e \<longrightarrow>
         RequestID h r s =
           h r (s\<lparr>reqID := reqID s + 1,
                  Env := Some (e(RequestIDKey \<mapsto>
                    VString (reqPrefix s0 @ ''-'' @ Itoa (sint (reqID s + 1)))))\<rparr>))"
    by (simp add: RequestID_def next_id_def Let_def Env_set_Some)
  from i z len chars first kr others ids show ?thesis by (intro conjI) blast+
qed

theorem reqPrefix_fixed_witness:
  "startup [rejected_read, random_read] = Some started_state \<and>
   keeps reqPrefix writing_handler \<and>
   init [rejected_read, random_read] = Some ''SGVsbG8gV2'' \<and>
   list_all (\<lambda>bytes. length bytes = 12) [rejected_read, random_read] \<and>
   length (filter (\<lambda>c. c \<noteq> CHR ''+'' \<and> c \<noteq> CHR ''/'') (EncodeToString rejected_read)) = 0 \<and>
   init [rejected_read, random_read] = init [random_read] \<and>
   RequestID writing_handler plain_request (started_state\<lparr>Env := Some Map.empty\<rparr>) =
     (Returned,
      started_state\<lparr>Env := Some [RequestIDKey \<mapsto> VString ''SGVsbG8gV2-1''],
                    rw := [Write ''13 characters''], reqID := 1\<rparr>)"
proof -
  have st: "startup [rejected_read, random_read] = Some started_state"
    unfolding startup_def init_rejected_read started_state_def by simp
  have full: "list_all (\<lambda>bytes. length bytes = 12) [rejected_read, random_read]"
    by (simp add: rejected_read_def random_read_def)
  have none: "length (filter (\<lambda>c. c \<noteq> CHR ''+'' \<and> c \<noteq> CHR ''/'') (EncodeToString rejected_read)) = 0"
    by (simp add: rejected_read_def b64_def Let_def)
  have plain: "Header_Get plain_request RequestIDHeader = []"
    by (simp add: plain_request_def)
  have p: "reqPrefix started_state = ''SGVsbG8gV2''" and z: "reqID started_state = 0"
    and w: "rw started_state = []"
    by (simp_all add: started_state_def)
  show ?thesis
    using reqPrefix_fixed [OF st keeps_reqPrefix_writing_handler,
        where bytes = rejected_read and more_reads = "[random_read]"
          and s = "started_state\<lparr>Env := Some Map.empty\<rparr>" and r = plain_request
          and e = Map.empty and m = "[]" and logger' = Root and elapsed = "[]" and stack = "[]"]
      st full none plain p z w keeps_reqPrefix_writing_handler init_random_read init_rejected_read
    by (simp add: writing_handler_def Itoa_def nat_dec.simps digit_def)
qed

end
